theory Spec2Isabelle
  imports Complex_Main "HOL-Library.Word" "HOL-Library.Signed_Division" "HOL-Library.Multiset"
begin

section \<open>Electrical charges: sprites, strokes and the per-frame update\<close>

text \<open>
  The program is one Go file, the version with the physics overlay (an \<open>800 \<times> 600\<close>
  window, the keys \<^verbatim>\<open>A\<close>, \<^verbatim>\<open>P\<close>, \<^verbatim>\<open>N\<close> and the arrows): draggable sprites on
  a canvas, strokes (mouse or touch gestures) that drag them, and a per-frame callback
  \<^verbatim>\<open>Game.update\<close>. What is drawn on the screen is not modelled.
  Go's \<^verbatim>\<open>int\<close> is modelled as a 64-bit word: \<open>+\<close> and \<open>-\<close> wrap, and the
  comparisons of the source are the signed ones (\<open>word_sless\<close>, \<open>word_sle\<close>).
  Sprites are heap objects reached through pointers, so the model has an explicit store
  from addresses to sprite values; a \<^verbatim>\<open>*Sprite\<close> is an address, and a nil pointer is
  \<open>None\<close>.
\<close>

subsection \<open>Machine integers and constants\<close>

type_synonym goint = "64 word"

type_synonym addr = nat

text \<open>
  \<^verbatim>\<open>screenWidth = fullScreenWidth = 800\<close> and
  \<^verbatim>\<open>screenHeight = fullScreenHeight * .9\<close>, an exact constant expression whose
  value is 540.
\<close>

definition fullScreenWidth :: goint where
  "fullScreenWidth = 800"

definition fullScreenHeight :: goint where
  "fullScreenHeight = 600"

definition screenWidth :: goint where
  "screenWidth = fullScreenWidth"

definition screenHeight :: goint where
  "screenHeight = 540"

subsection \<open>Images of the host engine\<close>

text \<open>
  An engine image is seen by the program through two calls only: \<^verbatim>\<open>Size()\<close> and
  \<^verbatim>\<open>At(x, y)\<close>, of which the program reads the alpha channel (a byte). Sizes of
  engine images are pixel counts, hence naturals; \<^verbatim>\<open>Size\<close> returns them as ints.
\<close>

record Image =
  img_w :: nat
  img_h :: nat
  img_alpha :: "goint \<Rightarrow> goint \<Rightarrow> 8 word"

definition Image_Size :: "Image \<Rightarrow> goint \<times> goint" where
  "Image_Size im = (word_of_nat (img_w im), word_of_nat (img_h im))"

subsection \<open>Sprites\<close>

text \<open>
  The fields of \<^verbatim>\<open>Sprite\<close>; the type of \<^verbatim>\<open>charge\<close>, a float64, is the
  parameter \<open>'f\<close>.
\<close>

record 'f Sprite =
  s_name :: string
  s_image :: Image
  s_x :: goint
  s_y :: goint
  s_charge :: 'f
  s_chosen :: bool

definition Sprite_In :: "'f Sprite \<Rightarrow> goint \<Rightarrow> goint \<Rightarrow> bool" where
  "Sprite_In s x y \<longleftrightarrow> 0 < img_alpha (s_image s) (x - s_x s) (y - s_y s)"

definition Sprite_MoveBy :: "'f Sprite \<Rightarrow> goint \<Rightarrow> goint \<Rightarrow> 'f Sprite" where
  "Sprite_MoveBy s x y =
    (let (w, h) = Image_Size (s_image s);
         s = s\<lparr>s_x := s_x s + x\<rparr>;
         s = s\<lparr>s_y := s_y s + y\<rparr>;
         s = (if word_sless (s_x s) 0 then s\<lparr>s_x := 0\<rparr> else s);
         s = (if word_sless (screenWidth - w) (s_x s) then s\<lparr>s_x := screenWidth - w\<rparr> else s);
         s = (if word_sless (s_y s) 0 then s\<lparr>s_y := 0\<rparr> else s);
         s = (if word_sless (screenHeight - h) (s_y s) then s\<lparr>s_y := screenHeight - h\<rparr> else s)
     in s)"

subsection \<open>Strokes\<close>

text \<open>
  What the engine reports in one frame. The input state is latched per frame, so every
  call of the same query inside one \<^verbatim>\<open>update\<close> gives the same answer.
\<close>

record FrameInput =
  mouseJustPressed :: bool
  mouseJustReleased :: bool
  cursorPosition :: "goint \<times> goint"
  justPressedTouchIDs :: "goint list"
  touchJustReleased :: "goint \<Rightarrow> bool"
  touchPosition :: "goint \<Rightarrow> goint \<times> goint"
  keyA :: bool
  keyP :: bool
  keyN :: bool
  keyUp :: bool
  keyDown :: bool
  keyRight :: bool
  keyLeft :: bool
  randX :: goint
  randY :: goint
  drawingSkipped :: bool

datatype StrokeSource = MouseStrokeSource | TouchStrokeSource goint

fun Source_Position :: "FrameInput \<Rightarrow> StrokeSource \<Rightarrow> goint \<times> goint" where
  "Source_Position inp MouseStrokeSource = cursorPosition inp"
| "Source_Position inp (TouchStrokeSource i) = touchPosition inp i"

fun Source_IsJustReleased :: "FrameInput \<Rightarrow> StrokeSource \<Rightarrow> bool" where
  "Source_IsJustReleased inp MouseStrokeSource = mouseJustReleased inp"
| "Source_IsJustReleased inp (TouchStrokeSource i) = touchJustReleased inp i"

text \<open>
  \<^verbatim>\<open>draggingObject\<close> is an \<^verbatim>\<open>interface{}\<close>: the nil interface, or a
  \<^verbatim>\<open>*Sprite\<close> that may itself be nil.
\<close>

datatype DragObject = NilInterface | SpritePtr "addr option"

record Stroke =
  source :: StrokeSource
  initX :: goint
  initY :: goint
  currentX :: goint
  currentY :: goint
  released :: bool
  draggingObject :: DragObject

definition NewStroke :: "FrameInput \<Rightarrow> StrokeSource \<Rightarrow> Stroke" where
  "NewStroke inp src =
    (let (cx, cy) = Source_Position inp src
     in \<lparr>source = src, initX = cx, initY = cy, currentX = cx, currentY = cy,
         released = False, draggingObject = NilInterface\<rparr>)"

definition Stroke_Update :: "FrameInput \<Rightarrow> Stroke \<Rightarrow> Stroke" where
  "Stroke_Update inp s =
    (if released s then s
     else if Source_IsJustReleased inp (source s) then s\<lparr>released := True\<rparr>
     else (let (x, y) = Source_Position inp (source s)
           in s\<lparr>currentX := x, currentY := y\<rparr>))"

definition Stroke_IsReleased :: "Stroke \<Rightarrow> bool" where
  "Stroke_IsReleased s = released s"

definition Stroke_Position :: "Stroke \<Rightarrow> goint \<times> goint" where
  "Stroke_Position s = (currentX s, currentY s)"

definition Stroke_PositionDiff :: "Stroke \<Rightarrow> goint \<times> goint" where
  "Stroke_PositionDiff s =
    (let dx = currentX s - initX s;
         dy = currentY s - initY s
     in (dx, dy))"

definition Stroke_DraggingObject :: "Stroke \<Rightarrow> DragObject" where
  "Stroke_DraggingObject s = draggingObject s"

definition Stroke_SetDraggingObject :: "DragObject \<Rightarrow> Stroke \<Rightarrow> Stroke" where
  "Stroke_SetDraggingObject obj s = s\<lparr>draggingObject := obj\<rparr>"

subsection \<open>Float64 arithmetic\<close>

text \<open>
  The charge of a sprite and the physics formulas are float64. The operations of
  float64 that the program uses are taken as a parameter: \<open>f_const\<close> rounds an exact
  constant of the source to float64, \<open>f_of_int\<close> is the conversion
  \<^verbatim>\<open>float64(i)\<close>, \<open>f_less\<close> is \<^verbatim>\<open><\<close>.
\<close>

record 'f Float64 =
  f_const :: "real \<Rightarrow> 'f"
  f_of_int :: "goint \<Rightarrow> 'f"
  f_add :: "'f \<Rightarrow> 'f \<Rightarrow> 'f"
  f_sub :: "'f \<Rightarrow> 'f \<Rightarrow> 'f"
  f_mul :: "'f \<Rightarrow> 'f \<Rightarrow> 'f"
  f_div :: "'f \<Rightarrow> 'f \<Rightarrow> 'f"
  f_sqrt :: "'f \<Rightarrow> 'f"
  f_atan2 :: "'f \<Rightarrow> 'f \<Rightarrow> 'f"
  f_less :: "'f \<Rightarrow> 'f \<Rightarrow> bool"

definition k :: "'f Float64 \<Rightarrow> 'f" where
  "k ops = f_const ops (9 / 1000000000)"

definition distance :: "'f Float64 \<Rightarrow> 'f Sprite \<Rightarrow> 'f Sprite \<Rightarrow> 'f" where
  "distance ops particle1 particle2 =
    (let deltaX = f_of_int ops (s_x particle1 - s_x particle2);
         deltaY = f_of_int ops (s_y particle1 - s_y particle2)
     in f_div ops
          (f_sqrt ops (f_add ops (f_mul ops deltaX deltaX) (f_mul ops deltaY deltaY)))
          (f_const ops 100))"

definition force :: "'f Float64 \<Rightarrow> 'f Sprite \<Rightarrow> 'f Sprite \<Rightarrow> 'f" where
  "force ops particle1 particle2 =
    (let d = distance ops particle1 particle2
     in f_div ops
          (f_mul ops (k ops) (f_mul ops (s_charge particle1) (s_charge particle2)))
          (f_mul ops d d))"

definition field :: "'f Float64 \<Rightarrow> 'f \<Rightarrow> 'f \<Rightarrow> 'f" where
  "field ops charge radius =
    f_div ops (f_mul ops (k ops) charge) (f_mul ops radius radius)"

definition angle :: "'f Float64 \<Rightarrow> 'f Sprite \<Rightarrow> 'f Sprite \<Rightarrow> 'f" where
  "angle ops particle1 particle2 =
    f_atan2 ops (f_of_int ops (s_y particle1 - s_y particle2))
                (f_of_int ops (s_x particle1 - s_x particle2))"

text \<open>Go's integer division truncates towards zero; the divisor here is the constant 2.\<close>

definition go_quot :: "goint \<Rightarrow> goint \<Rightarrow> goint" where
  "go_quot a b = word_of_int (sint a sdiv sint b)"

definition midPoint :: "'f Sprite \<Rightarrow> 'f Sprite \<Rightarrow> goint \<times> goint" where
  "midPoint particle1 particle2 =
    (go_quot (s_x particle1 + s_x particle2) 2, go_quot (s_y particle1 + s_y particle2) 2)"

subsection \<open>The game state\<close>

text \<open>
  \<open>store\<close> maps the address of a sprite to its value and \<open>nalloc\<close> is the next
  unused address: \<^verbatim>\<open>&Sprite{...}\<close> writes the new value there. \<open>sprites\<close> is the
  slice \<^verbatim>\<open>[]*Sprite\<close>, ordered from back to front. \<open>strokes\<close> is the Go map
  \<^verbatim>\<open>map[*Stroke]struct{}\<close> used as a set: nothing but this map refers to a stroke,
  so the set of pointers is modelled as the list of the strokes' values, in the order in
  which a \<^verbatim>\<open>range\<close> visits them. The font is used for drawing only and left out.
\<close>

record 'f Game =
  store :: "addr \<Rightarrow> 'f Sprite"
  nalloc :: addr
  strokes :: "Stroke list"
  sprites :: "addr list"
  ChosenSprite :: "addr option"

record Assets =
  negativeImage :: Image
  neutralImage :: Image
  positiveImage :: Image

datatype panic = TypeAssertionPanic | SliceBoundsPanic | IntnPanic

subsection \<open>Initialisation\<close>

definition digit_char :: "nat \<Rightarrow> char" where
  "digit_char d = ''0123456789'' ! d"

function Itoa :: "nat \<Rightarrow> string" where
  "Itoa n = (if n < 10 then [digit_char n] else Itoa (n div 10) @ [digit_char (n mod 10)])"
  by pat_completeness auto
termination
  by (relation "measure (\<lambda>n. n)") auto

declare Itoa.simps [simp del]

text \<open>
  \<^verbatim>\<open>rand.Intn(n)\<close> panics when \<open>n \<le> 0\<close>; otherwise it returns a number drawn by
  the generator, which is an input of the model.
\<close>

definition Intn :: "goint \<Rightarrow> goint \<Rightarrow> panic + goint" where
  "Intn n r = (if word_sle n 0 then Inl IntnPanic else Inr r)"

definition emptySprite :: "'f Float64 \<Rightarrow> Assets \<Rightarrow> 'f Sprite" where
  "emptySprite ops as =
    \<lparr>s_name = [], s_image = neutralImage as, s_x = 0, s_y = 0,
     s_charge = f_const ops 0, s_chosen = False\<rparr>"

definition alloc :: "'f Sprite \<Rightarrow> 'f Game \<Rightarrow> 'f Game" where
  "alloc s g = g\<lparr>store := (store g)(nalloc g := s), nalloc := Suc (nalloc g)\<rparr>"

definition initSprite ::
  "'f Float64 \<Rightarrow> Assets \<Rightarrow> nat \<Rightarrow> goint \<times> goint \<Rightarrow> 'f Game \<Rightarrow> panic + 'f Game" where
  "initSprite ops as i r g =
    (let (w, h) = Image_Size (neutralImage as)
     in case Intn (screenWidth - w) (fst r) of
          Inl e \<Rightarrow> Inl e
        | Inr rx \<Rightarrow>
           (case Intn (screenHeight - h) (snd r) of
              Inl e \<Rightarrow> Inl e
            | Inr ry \<Rightarrow>
               Inr ((alloc \<lparr>s_name = ''Q'' @ Itoa i, s_image = neutralImage as,
                             s_x = rx, s_y = ry, s_charge = f_const ops 0,
                             s_chosen = False\<rparr> g)
                     \<lparr>sprites := sprites g @ [nalloc g]\<rparr>)))"

text \<open>
  \<^verbatim>\<open>init\<close>: two sprites at random places, no stroke, no chosen sprite. Addresses
  not yet allocated hold a placeholder that no pointer of the program reaches.
\<close>

definition init_game ::
  "'f Float64 \<Rightarrow> Assets \<Rightarrow> goint \<times> goint \<Rightarrow> goint \<times> goint \<Rightarrow> panic + 'f Game" where
  "init_game ops as r0 r1 =
    (let g0 = \<lparr>store = (\<lambda>_. emptySprite ops as), nalloc = 0, strokes = [],
               sprites = [], ChosenSprite = None\<rparr>
     in case initSprite ops as 0 r0 g0 of
          Inl e \<Rightarrow> Inl e
        | Inr g1 \<Rightarrow> initSprite ops as 1 r1 g1)"

subsection \<open>Picking\<close>

text \<open>
  \<^verbatim>\<open>for i := len(g.sprites) - 1; i >= 0; i--\<close>: the argument \<open>n\<close> of the loop
  function is \<open>i + 1\<close>.
\<close>

fun spriteAt_loop :: "'f Game \<Rightarrow> goint \<Rightarrow> goint \<Rightarrow> nat \<Rightarrow> addr option" where
  "spriteAt_loop g x y 0 = None"
| "spriteAt_loop g x y (Suc i) =
    (let s = sprites g ! i
     in if Sprite_In (store g s) x y then Some s else spriteAt_loop g x y i)"

definition Game_spriteAt :: "'f Game \<Rightarrow> goint \<times> goint \<Rightarrow> addr option" where
  "Game_spriteAt g p = spriteAt_loop g (fst p) (snd p) (length (sprites g))"

subsection \<open>Releasing a stroke\<close>

text \<open>
  The search loop of \<^verbatim>\<open>updateStroke\<close>: the index of the first pointer equal to
  \<open>s\<close>, or \<open>-1\<close>.
\<close>

fun findIndex :: "addr \<Rightarrow> addr list \<Rightarrow> int \<Rightarrow> int" where
  "findIndex s [] i = - 1"
| "findIndex s (ss # rest) i = (if ss = s then i else findIndex s rest (i + 1))"

text \<open>
  The type assertion \<^verbatim>\<open>.(*Sprite)\<close> panics on the nil interface, and slicing with
  index \<open>-1\<close> panics. The returned stroke is the stroke after the call.
\<close>

definition Game_updateStroke ::
  "FrameInput \<Rightarrow> 'f Game \<Rightarrow> Stroke \<Rightarrow> panic + ('f Game \<times> Stroke)" where
  "Game_updateStroke inp g stroke0 =
    (let stroke = Stroke_Update inp stroke0
     in if \<not> Stroke_IsReleased stroke then Inr (g, stroke)
        else case Stroke_DraggingObject stroke of
               NilInterface \<Rightarrow> Inl TypeAssertionPanic
             | SpritePtr None \<Rightarrow> Inr (g, stroke)
             | SpritePtr (Some s) \<Rightarrow>
                (let (dx, dy) = Stroke_PositionDiff stroke;
                     g = g\<lparr>store := (store g)(s := Sprite_MoveBy (store g s) dx dy)\<rparr>;
                     index = findIndex s (sprites g) 0
                 in if index < 0 then Inl SliceBoundsPanic
                    else
                      (let g = g\<lparr>sprites := take (nat index) (sprites g)
                                               @ drop (nat (index + 1)) (sprites g)\<rparr>;
                           g = g\<lparr>sprites := sprites g @ [s]\<rparr>
                       in Inr (g, Stroke_SetDraggingObject NilInterface stroke))))"

subsection \<open>The per-frame update\<close>

text \<open>
  The body run for a pointer that went down in this frame (the mouse button, or one
  touch id): a new stroke is created at the pointer, attached to the sprite under it and
  put into the stroke set; every sprite of the list is unchosen, the picked one is chosen.
\<close>

definition unchooseAll :: "'f Game \<Rightarrow> 'f Game" where
  "unchooseAll g =
    g\<lparr>store := fold (\<lambda>s st. st(s := (st s)\<lparr>s_chosen := False\<rparr>)) (sprites g) (store g)\<rparr>"

definition pointerDown :: "FrameInput \<Rightarrow> StrokeSource \<Rightarrow> 'f Game \<Rightarrow> 'f Game" where
  "pointerDown inp src g =
    (let s = NewStroke inp src;
         spriteAtPos = Game_spriteAt g (Stroke_Position s);
         s = Stroke_SetDraggingObject (SpritePtr spriteAtPos) s;
         g = g\<lparr>strokes := s # strokes g\<rparr>;
         g = unchooseAll g;
         g = (case spriteAtPos of
                None \<Rightarrow> g
              | Some a \<Rightarrow> g\<lparr>store := (store g)(a := (store g a)\<lparr>s_chosen := True\<rparr>)\<rparr>)
     in g\<lparr>ChosenSprite := spriteAtPos\<rparr>)"

text \<open>The key \<^verbatim>\<open>A\<close>: a new neutral sprite at a random place, appended to the list.\<close>

definition addSprite :: "'f Float64 \<Rightarrow> Assets \<Rightarrow> FrameInput \<Rightarrow> 'f Game \<Rightarrow> 'f Game" where
  "addSprite ops as inp g =
    (let s = \<lparr>s_name = ''Q'' @ Itoa (length (sprites g)), s_image = neutralImage as,
              s_x = randX inp, s_y = randY inp, s_charge = f_const ops 0,
              s_chosen = False\<rparr>
     in (alloc s g)\<lparr>sprites := sprites g @ [nalloc g]\<rparr>)"

text \<open>
  The six key loops have one shape,
  \<^verbatim>\<open>for _, s := range g.sprites { if s.chosen { ... } }\<close>, and differ in the
  assignment only, which is the argument \<open>f\<close>.
\<close>

definition forChosen :: "('f Sprite \<Rightarrow> 'f Sprite) \<Rightarrow> 'f Game \<Rightarrow> 'f Game" where
  "forChosen f g =
    g\<lparr>store := fold (\<lambda>s st. if s_chosen (st s) then st(s := f (st s)) else st)
                     (sprites g) (store g)\<rparr>"

definition increaseCharge :: "'f Float64 \<Rightarrow> 'f Game \<Rightarrow> 'f Game" where
  "increaseCharge ops =
    forChosen (\<lambda>s. s\<lparr>s_charge := f_add ops (s_charge s) (f_const ops (1 / 10))\<rparr>)"

definition decreaseCharge :: "'f Float64 \<Rightarrow> 'f Game \<Rightarrow> 'f Game" where
  "decreaseCharge ops =
    forChosen (\<lambda>s. s\<lparr>s_charge := f_sub ops (s_charge s) (f_const ops (1 / 10))\<rparr>)"

text \<open>
  \<^verbatim>\<open>screenHeight / 10\<close> and \<^verbatim>\<open>screenWidth / 10\<close> are constant expressions,
  54 and 80.
\<close>

definition nudgeUp :: "'f Game \<Rightarrow> 'f Game" where
  "nudgeUp = forChosen (\<lambda>s. s\<lparr>s_y := s_y s - 54\<rparr>)"

definition nudgeDown :: "'f Game \<Rightarrow> 'f Game" where
  "nudgeDown = forChosen (\<lambda>s. s\<lparr>s_y := s_y s + 54\<rparr>)"

definition nudgeRight :: "'f Game \<Rightarrow> 'f Game" where
  "nudgeRight = forChosen (\<lambda>s. s\<lparr>s_x := s_x s + 80\<rparr>)"

definition nudgeLeft :: "'f Game \<Rightarrow> 'f Game" where
  "nudgeLeft = forChosen (\<lambda>s. s\<lparr>s_x := s_x s - 80\<rparr>)"

text \<open>
  \<^verbatim>\<open>for s := range g.strokes { g.updateStroke(s); if s.IsReleased() { delete(g.strokes, s) } }\<close>:
  the result is the game and the strokes that stay in the set.
\<close>

fun strokesLoop ::
  "FrameInput \<Rightarrow> 'f Game \<Rightarrow> Stroke list \<Rightarrow> panic + ('f Game \<times> Stroke list)" where
  "strokesLoop inp g [] = Inr (g, [])"
| "strokesLoop inp g (s # rest) =
    (case Game_updateStroke inp g s of
       Inl e \<Rightarrow> Inl e
     | Inr (g1, s1) \<Rightarrow>
        (case strokesLoop inp g1 rest of
           Inl e \<Rightarrow> Inl e
         | Inr (g2, kept) \<Rightarrow>
            Inr (g2, if Stroke_IsReleased s1 then kept else s1 # kept)))"

text \<open>
  The drawing part changes the state in one place: a sprite that no stroke is dragging
  gets the image of the sign of its charge. The sprites being dragged are collected
  first, with the type assertion of the source.
\<close>

fun draggingSprites :: "Stroke list \<Rightarrow> panic + addr list" where
  "draggingSprites [] = Inr []"
| "draggingSprites (s # rest) =
    (case Stroke_DraggingObject s of
       NilInterface \<Rightarrow> Inl TypeAssertionPanic
     | SpritePtr None \<Rightarrow> draggingSprites rest
     | SpritePtr (Some a) \<Rightarrow>
        (case draggingSprites rest of Inl e \<Rightarrow> Inl e | Inr ds \<Rightarrow> Inr (a # ds)))"

definition chargeImage :: "'f Float64 \<Rightarrow> Assets \<Rightarrow> 'f \<Rightarrow> Image" where
  "chargeImage ops as c =
    (if f_less ops (f_const ops 0) c then positiveImage as
     else if f_less ops c (f_const ops 0) then negativeImage as
     else neutralImage as)"

definition draw :: "'f Float64 \<Rightarrow> Assets \<Rightarrow> 'f Game \<Rightarrow> panic + 'f Game" where
  "draw ops as g =
    (case draggingSprites (strokes g) of
       Inl e \<Rightarrow> Inl e
     | Inr ds \<Rightarrow>
        Inr (g\<lparr>store :=
               fold (\<lambda>s st. if s \<in> set ds then st
                             else st(s := (st s)\<lparr>s_image := chargeImage ops as (s_charge (st s))\<rparr>))
                    (sprites g) (store g)\<rparr>))"

text \<open>
  The first half of \<^verbatim>\<open>update\<close>: the pointer-down events (the mouse, then every
  touch id that went down) and the key events, in the order of the source.
\<close>

definition handleInput ::
  "'f Float64 \<Rightarrow> Assets \<Rightarrow> FrameInput \<Rightarrow> 'f Game \<Rightarrow> 'f Game" where
  "handleInput ops as inp g0 =
    (let g = (if mouseJustPressed inp then pointerDown inp MouseStrokeSource g0 else g0);
         g = fold (\<lambda>i. pointerDown inp (TouchStrokeSource i)) (justPressedTouchIDs inp) g;
         g = (if keyA inp then addSprite ops as inp g else g);
         g = (if keyP inp then increaseCharge ops g else g);
         g = (if keyN inp then decreaseCharge ops g else g);
         g = (if keyUp inp then nudgeUp g else g);
         g = (if keyDown inp then nudgeDown g else g);
         g = (if keyRight inp then nudgeRight g else g);
         g = (if keyLeft inp then nudgeLeft g else g)
     in g)"

text \<open>
  The second half: every stroke of the set is updated, the released ones are deleted,
  and unless the engine skips drawing the frame is drawn. The order in which a
  \<^verbatim>\<open>range\<close> visits a Go map is not specified and differs from one loop to the next:
  it is the argument \<open>ord\<close>, any rearrangement of the stroke set as it is after the
  first half.
\<close>

definition visit_order ::
  "'f Float64 \<Rightarrow> Assets \<Rightarrow> FrameInput \<Rightarrow> Stroke list \<Rightarrow> 'f Game \<Rightarrow> bool" where
  "visit_order ops as inp ord g0 \<longleftrightarrow> mset ord = mset (strokes (handleInput ops as inp g0))"

definition Game_update ::
  "'f Float64 \<Rightarrow> Assets \<Rightarrow> FrameInput \<Rightarrow> Stroke list \<Rightarrow> 'f Game \<Rightarrow> panic + 'f Game" where
  "Game_update ops as inp ord g0 =
    (let g = handleInput ops as inp g0
     in case strokesLoop inp g ord of
          Inl e \<Rightarrow> Inl e
        | Inr (g, kept) \<Rightarrow>
           (let g = g\<lparr>strokes := kept\<rparr>
            in if drawingSkipped inp then Inr g else draw ops as g))"

text \<open>
  Where a sprite stands after a frame, when the frame completes.
\<close>

definition position_after :: "panic + 'f Game \<Rightarrow> addr \<Rightarrow> (goint \<times> goint) option" where
  "position_after r a =
    (case r of Inl e \<Rightarrow> None | Inr g \<Rightarrow> Some (s_x (store g a), s_y (store g a)))"

subsection \<open>Reachable states\<close>

text \<open>
  The engine calls \<^verbatim>\<open>update\<close> once per frame, with whatever input the frame
  brings, and the stroke loop may visit the strokes in any order.
\<close>

inductive reachable :: "'f Float64 \<Rightarrow> Assets \<Rightarrow> 'f Game \<Rightarrow> bool"
  for ops :: "'f Float64" and as :: Assets where
  reach_init: "init_game ops as r0 r1 = Inr g \<Longrightarrow> reachable ops as g"
| reach_frame:
    "reachable ops as g \<Longrightarrow> visit_order ops as inp ord g \<Longrightarrow>
     Game_update ops as inp ord g = Inr g' \<Longrightarrow> reachable ops as g'"

subsection \<open>Concrete inputs\<close>

text \<open>
  The general statements below are each run once on a small concrete game. Here float64
  is instantiated by the reals, a \<open>40 \<times> 40\<close> image is opaque everywhere, and the game
  is the one \<^verbatim>\<open>init\<close> builds when the generator returns \<open>(10, 10)\<close> and
  \<open>(30, 30)\<close>.
\<close>

definition realOps :: "real Float64" where
  "realOps =
    \<lparr>f_const = (\<lambda>r. r), f_of_int = (\<lambda>i. real_of_int (sint i)),
     f_add = (\<lambda>a b. a + b), f_sub = (\<lambda>a b. a - b), f_mul = (\<lambda>a b. a * b),
     f_div = (\<lambda>a b. a / b), f_sqrt = sqrt, f_atan2 = (\<lambda>b a. Arg (Complex a b)),
     f_less = (\<lambda>a b. a < b)\<rparr>"

definition opaqueImage :: Image where
  "opaqueImage =
    \<lparr>img_w = 40, img_h = 40, img_alpha = (\<lambda>x y. if x < 40 \<and> y < 40 then 255 else 0)\<rparr>"

definition demoAssets :: Assets where
  "demoAssets =
    \<lparr>negativeImage = opaqueImage, neutralImage = opaqueImage, positiveImage = opaqueImage\<rparr>"

definition demoSprite :: "string \<Rightarrow> goint \<Rightarrow> goint \<Rightarrow> bool \<Rightarrow> real Sprite" where
  "demoSprite n x y c =
    \<lparr>s_name = n, s_image = opaqueImage, s_x = x, s_y = y, s_charge = 0, s_chosen = c\<rparr>"

definition demoStore :: "bool \<Rightarrow> addr \<Rightarrow> real Sprite" where
  "demoStore c =
    (\<lambda>_. emptySprite realOps demoAssets)
      (0 := demoSprite ''Q0'' 10 10 c, Suc 0 := demoSprite ''Q1'' 30 30 False)"

definition demoGame :: "real Game" where
  "demoGame =
    \<lparr>store = demoStore False, nalloc = 2, strokes = [], sprites = [0, Suc 0],
     ChosenSprite = None\<rparr>"

text \<open>The same game after the first sprite has been picked.\<close>

definition chosenGame :: "real Game" where
  "chosenGame = demoGame\<lparr>store := demoStore True, ChosenSprite := Some 0\<rparr>"

text \<open>The chosen sprite stands near the right and lower edges of the screen.\<close>

definition edgeGame :: "real Game" where
  "edgeGame = chosenGame\<lparr>store := (demoStore True)(0 := demoSprite ''Q0'' 750 500 True)\<rparr>"

definition quietInput :: FrameInput where
  "quietInput =
    \<lparr>mouseJustPressed = False, mouseJustReleased = False, cursorPosition = (0, 0),
     justPressedTouchIDs = [], touchJustReleased = (\<lambda>_. False),
     touchPosition = (\<lambda>_. (0, 0)), keyA = False, keyP = False, keyN = False,
     keyUp = False, keyDown = False, keyRight = False, keyLeft = False,
     randX = 0, randY = 0, drawingSkipped = True\<rparr>"

definition releaseInput :: FrameInput where
  "releaseInput = quietInput\<lparr>mouseJustReleased := True, cursorPosition := (17, 19)\<rparr>"

text \<open>
  A mouse stroke that went down at \<open>(12, 12)\<close> and was last seen at \<open>(17, 19)\<close>,
  attached to the object \<open>obj\<close>.
\<close>

definition demoStroke :: "DragObject \<Rightarrow> Stroke" where
  "demoStroke obj =
    \<lparr>source = MouseStrokeSource, initX = 12, initY = 12, currentX = 17, currentY = 19,
     released = False, draggingObject = obj\<rparr>"

definition pressInput :: FrameInput where
  "pressInput = quietInput\<lparr>mouseJustPressed := True, cursorPosition := (15, 15)\<rparr>"

definition pressedStroke :: Stroke where
  "pressedStroke =
    \<lparr>source = MouseStrokeSource, initX = 15, initY = 15, currentX = 15, currentY = 15,
     released = False, draggingObject = SpritePtr (Some 0)\<rparr>"

definition addInput :: FrameInput where
  "addInput =
    quietInput\<lparr>keyA := True, randX := 100, randY := 200, drawingSkipped := False\<rparr>"

definition touchStroke :: Stroke where
  "touchStroke =
    \<lparr>source = TouchStrokeSource 3, initX = 0, initY = 0, currentX = 0, currentY = 0,
     released = False, draggingObject = SpritePtr None\<rparr>"

text \<open>The first sprite is being dragged by the mouse while a finger rests on the canvas.\<close>

definition draggingGame :: "real Game" where
  "draggingGame = chosenGame\<lparr>strokes := [demoStroke (SpritePtr (Some 0)), touchStroke]\<rparr>"

text \<open>
  A mouse stroke that went down at \<open>(12, 12)\<close> on the first sprite and was dragged to
  the corner \<open>(0, 0)\<close>.
\<close>

definition offScreenStroke :: Stroke where
  "offScreenStroke =
    \<lparr>source = MouseStrokeSource, initX = 12, initY = 12, currentX = 0, currentY = 0,
     released = False, draggingObject = SpritePtr (Some 0)\<rparr>"

text \<open>
  The game after the press frame: the first sprite is chosen and held by the mouse, which
  has not moved. Then three frames with the key \<^verbatim>\<open>Left\<close>: alone, together with the
  release of the mouse, and together with the key \<^verbatim>\<open>Right\<close>.
\<close>

definition heldGame :: "real Game" where
  "heldGame = chosenGame\<lparr>strokes := [pressedStroke]\<rparr>"

definition leftInput :: FrameInput where
  "leftInput = quietInput\<lparr>keyLeft := True, cursorPosition := (15, 15)\<rparr>"

definition leftReleaseInput :: FrameInput where
  "leftReleaseInput =
    quietInput\<lparr>keyLeft := True, mouseJustReleased := True, cursorPosition := (15, 15)\<rparr>"

definition leftRightInput :: FrameInput where
  "leftRightInput =
    quietInput\<lparr>keyLeft := True, keyRight := True, cursorPosition := (15, 15)\<rparr>"

subsection \<open>The invariant of the chosen flag\<close>

text \<open>
  What every frame keeps: the sprite list has no pointer twice and holds allocated
  addresses only, a sprite of the list is flagged chosen exactly when
  \<^verbatim>\<open>ChosenSprite\<close> points to it, and \<^verbatim>\<open>ChosenSprite\<close> is nil or points into
  the list.
\<close>

definition chosen_inv :: "'f Game \<Rightarrow> bool" where
  "chosen_inv g \<longleftrightarrow>
     distinct (sprites g) \<and>
     (\<forall>a\<in>set (sprites g).
        a < nalloc g \<and> (s_chosen (store g a) \<longleftrightarrow> ChosenSprite g = Some a)) \<and>
     (\<forall>a. ChosenSprite g = Some a \<longrightarrow> a \<in> set (sprites g))"

subsection \<open>The invariant of the stroke set\<close>

text \<open>
  A stroke of the set is not released, and its dragging object is a \<^verbatim>\<open>*Sprite\<close>,
  nil or a sprite of the list: the type assertion and the slicing of
  \<^verbatim>\<open>updateStroke\<close> cannot panic on it.
\<close>

definition stroke_ok :: "addr list \<Rightarrow> Stroke \<Rightarrow> bool" where
  "stroke_ok xs s \<longleftrightarrow>
     \<not> released s \<and>
     (case draggingObject s of
        NilInterface \<Rightarrow> False
      | SpritePtr None \<Rightarrow> True
      | SpritePtr (Some a) \<Rightarrow> a \<in> set xs)"

definition strokes_inv :: "'f Game \<Rightarrow> bool" where
  "strokes_inv g \<longleftrightarrow> (\<forall>s\<in>set (strokes g). stroke_ok (sprites g) s)"

section \<open>Properties\<close>

lemmas demo_defs = demoAssets_def opaqueImage_def demoGame_def demoStore_def demoSprite_def
  realOps_def quietInput_def releaseInput_def demoStroke_def chosenGame_def emptySprite_def
  pressInput_def addInput_def touchStroke_def draggingGame_def pressedStroke_def edgeGame_def
  offScreenStroke_def heldGame_def leftInput_def leftReleaseInput_def leftRightInput_def

lemmas screen_defs = screenWidth_def fullScreenWidth_def screenHeight_def Image_Size_def
  word_sle_eq word_sless_alt

subsection \<open>The position delta of a stroke\<close>

lemma Update_keeps_origin:
  "initX (Stroke_Update inp s) = initX s \<and> initY (Stroke_Update inp s) = initY s"
  by (simp add: Stroke_Update_def split: prod.splits)

lemma fold_Update_keeps_origin:
  "initX (fold Stroke_Update inps s) = initX s \<and> initY (fold Stroke_Update inps s) = initY s"
  by (induction inps arbitrary: s) (simp_all add: Update_keeps_origin)

lemma NewStroke_origin:
  "(initX (NewStroke inp src), initY (NewStroke inp src)) = Source_Position inp src"
  by (simp add: NewStroke_def split: prod.splits)

text \<open>
  Claim C2. \<^verbatim>\<open>Stroke.PositionDiff\<close> returns the current position minus the recorded
  origin, componentwise (in Go's wrapping int arithmetic). The origin is the pointer
  position that \<^verbatim>\<open>NewStroke\<close> read at pointer-down: neither attaching an object nor
  any number of later \<^verbatim>\<open>Update\<close> calls, whatever the frames' inputs, changes it.
\<close>

theorem PositionDiff_current_minus_origin:
  "Stroke_PositionDiff s = (currentX s - initX s, currentY s - initY s) \<and>
   Stroke_PositionDiff (fold Stroke_Update inps (Stroke_SetDraggingObject obj (NewStroke inp0 src)))
     = (currentX (fold Stroke_Update inps (Stroke_SetDraggingObject obj (NewStroke inp0 src)))
          - fst (Source_Position inp0 src),
        currentY (fold Stroke_Update inps (Stroke_SetDraggingObject obj (NewStroke inp0 src)))
          - snd (Source_Position inp0 src))"
proof -
  have a: "Stroke_PositionDiff t = (currentX t - initX t, currentY t - initY t)" for t
    by (simp add: Stroke_PositionDiff_def)
  have b: "initX (Stroke_SetDraggingObject obj (NewStroke inp0 src)) = fst (Source_Position inp0 src)"
          "initY (Stroke_SetDraggingObject obj (NewStroke inp0 src)) = snd (Source_Position inp0 src)"
    by (simp_all add: Stroke_SetDraggingObject_def NewStroke_def split: prod.splits)
  show ?thesis
    by (simp add: a b fold_Update_keeps_origin)
qed

theorem PositionDiff_current_minus_origin_witness:
  "Stroke_PositionDiff (demoStroke NilInterface) = (5, 7) \<and>
   Stroke_PositionDiff
     (fold Stroke_Update [releaseInput]
        (Stroke_SetDraggingObject NilInterface (NewStroke quietInput MouseStrokeSource)))
     = (0, 0)"
  using PositionDiff_current_minus_origin
          [of "demoStroke NilInterface" "[releaseInput]" NilInterface quietInput MouseStrokeSource]
  by (simp add: demo_defs Stroke_Update_def Stroke_SetDraggingObject_def NewStroke_def)

subsection \<open>Moving a sprite keeps it on the screen\<close>

lemma sint_word_of_nat_small:
  assumes "n \<le> 1000"
  shows "sint (word_of_nat n :: goint) = int n"
proof -
  have "int n < 2 ^ 63" using assms by simp
  then have "signed_take_bit 63 (int n) = int n"
    by (intro signed_take_bit_int_eq_self) simp_all
  then show ?thesis by (simp add: signed_of_nat)
qed

lemma sint_screen_minus:
  assumes "sint c = int m" "n \<le> m" "m \<le> 1000"
  shows "sint ((c :: goint) - word_of_nat n) = int m - int n"
proof -
  have n: "sint (word_of_nat n :: goint) = int n"
    using assms by (intro sint_word_of_nat_small) simp
  have "- (2 ^ 63) \<le> int m - int n" "int m - int n < 2 ^ 63"
    using assms by simp_all
  then have "signed_take_bit 63 (int m - int n) = int m - int n"
    by (intro signed_take_bit_int_eq_self)
  then show ?thesis
    by (simp add: sint_word_diff n assms(1))
qed

lemma clamp_x:
  fixes x0 :: goint
  assumes "0 \<le> sint b"
  shows "word_sle 0 (if word_sless b (if word_sless x0 0 then 0 else x0) then b else (if word_sless x0 0 then 0 else x0))
     \<and> word_sle (if word_sless b (if word_sless x0 0 then 0 else x0) then b else (if word_sless x0 0 then 0 else x0)) b"
  using assms by (auto simp: word_sle_eq word_sless_alt)

text \<open>
  Claim C9. If the image of a sprite is no wider than the screen and no higher, then
  after \<^verbatim>\<open>MoveBy(dx, dy)\<close> the sprite lies on the screen,
  \<open>0 \<le> x \<le> screenWidth - w\<close> and \<open>0 \<le> y \<le> screenHeight - h\<close>, for every 64-bit
  displacement, wrapping additions included.
\<close>

theorem MoveBy_within_screen:
  assumes w: "int (img_w (s_image s)) \<le> sint screenWidth"
      and h: "int (img_h (s_image s)) \<le> sint screenHeight"
  shows "word_sle 0 (s_x (Sprite_MoveBy s dx dy)) \<and>
         word_sle (s_x (Sprite_MoveBy s dx dy)) (screenWidth - word_of_nat (img_w (s_image s))) \<and>
         word_sle 0 (s_y (Sprite_MoveBy s dx dy)) \<and>
         word_sle (s_y (Sprite_MoveBy s dx dy)) (screenHeight - word_of_nat (img_h (s_image s)))"
proof -
  have sw: "sint screenWidth = int 800" and sh: "sint screenHeight = int 540"
    by (simp_all add: screenWidth_def fullScreenWidth_def screenHeight_def)
  have bw: "0 \<le> sint (screenWidth - word_of_nat (img_w (s_image s)))"
    using w sint_screen_minus [OF sw, of "img_w (s_image s)"] by (simp add: sw)
  have bh: "0 \<le> sint (screenHeight - word_of_nat (img_h (s_image s)))"
    using h sint_screen_minus [OF sh, of "img_h (s_image s)"] by (simp add: sh)
  have x: "s_x (Sprite_MoveBy s dx dy) =
      (if word_sless (screenWidth - word_of_nat (img_w (s_image s)))
            (if word_sless (s_x s + dx) 0 then 0 else s_x s + dx)
       then screenWidth - word_of_nat (img_w (s_image s))
       else (if word_sless (s_x s + dx) 0 then 0 else s_x s + dx))"
    by (simp add: Sprite_MoveBy_def Image_Size_def Let_def)
  have y: "s_y (Sprite_MoveBy s dx dy) =
      (if word_sless (screenHeight - word_of_nat (img_h (s_image s)))
            (if word_sless (s_y s + dy) 0 then 0 else s_y s + dy)
       then screenHeight - word_of_nat (img_h (s_image s))
       else (if word_sless (s_y s + dy) 0 then 0 else s_y s + dy))"
    by (simp add: Sprite_MoveBy_def Image_Size_def Let_def)
  show ?thesis
    unfolding x y using clamp_x [OF bw, of "s_x s + dx"] clamp_x [OF bh, of "s_y s + dy"]
    by simp
qed

theorem MoveBy_within_screen_witness:
  "int (img_w (s_image (demoSprite ''Q0'' 10 10 False))) \<le> sint screenWidth \<and>
   int (img_h (s_image (demoSprite ''Q0'' 10 10 False))) \<le> sint screenHeight \<and>
   Sprite_MoveBy (demoSprite ''Q0'' 10 10 False) 900 (- 700) = demoSprite ''Q0'' 760 0 False \<and>
   word_sle 0 (s_x (Sprite_MoveBy (demoSprite ''Q0'' 10 10 False) 900 (- 700))) \<and>
   word_sle (s_x (Sprite_MoveBy (demoSprite ''Q0'' 10 10 False) 900 (- 700)))
     (screenWidth - word_of_nat (img_w (s_image (demoSprite ''Q0'' 10 10 False)))) \<and>
   word_sle 0 (s_y (Sprite_MoveBy (demoSprite ''Q0'' 10 10 False) 900 (- 700))) \<and>
   word_sle (s_y (Sprite_MoveBy (demoSprite ''Q0'' 10 10 False) 900 (- 700)))
     (screenHeight - word_of_nat (img_h (s_image (demoSprite ''Q0'' 10 10 False))))"
proof -
  have w: "int (img_w (s_image (demoSprite ''Q0'' 10 10 False))) \<le> sint screenWidth"
    by (simp add: demo_defs screen_defs)
  have h: "int (img_h (s_image (demoSprite ''Q0'' 10 10 False))) \<le> sint screenHeight"
    by (simp add: demo_defs screen_defs)
  have m: "Sprite_MoveBy (demoSprite ''Q0'' 10 10 False) 900 (- 700)
             = demoSprite ''Q0'' 760 0 False"
    by (simp add: Sprite_MoveBy_def demo_defs screen_defs Let_def)
  from MoveBy_within_screen [OF w h, of 900 "- 700"] w h m show ?thesis
    by simp
qed

subsection \<open>Picking the topmost sprite\<close>

lemma spriteAt_loop_None:
  "spriteAt_loop g x y n = None \<longleftrightarrow> (\<forall>i<n. \<not> Sprite_In (store g (sprites g ! i)) x y)"
  by (induction n) (auto simp: Let_def less_Suc_eq)

lemma spriteAt_loop_Some:
  "spriteAt_loop g x y n = Some a \<longleftrightarrow>
     (\<exists>i<n. sprites g ! i = a \<and> Sprite_In (store g a) x y \<and>
            (\<forall>j. i < j \<and> j < n \<longrightarrow> \<not> Sprite_In (store g (sprites g ! j)) x y))"
proof (induction n)
  case 0
  then show ?case by simp
next
  case (Suc n)
  show ?case
  proof (cases "Sprite_In (store g (sprites g ! n)) x y")
    case True
    have "(\<exists>i<Suc n. sprites g ! i = a \<and> Sprite_In (store g a) x y \<and>
            (\<forall>j. i < j \<and> j < Suc n \<longrightarrow> \<not> Sprite_In (store g (sprites g ! j)) x y))
          \<longleftrightarrow> sprites g ! n = a"
    proof
      assume "\<exists>i<Suc n. sprites g ! i = a \<and> Sprite_In (store g a) x y \<and>
            (\<forall>j. i < j \<and> j < Suc n \<longrightarrow> \<not> Sprite_In (store g (sprites g ! j)) x y)"
      then obtain i where i: "i < Suc n" "sprites g ! i = a"
        "\<forall>j. i < j \<and> j < Suc n \<longrightarrow> \<not> Sprite_In (store g (sprites g ! j)) x y" by blast
      have "\<not> i < n" using i(3) True by auto
      with i(1) have "i = n" by simp
      with i(2) show "sprites g ! n = a" by simp
    next
      assume "sprites g ! n = a"
      with True show "\<exists>i<Suc n. sprites g ! i = a \<and> Sprite_In (store g a) x y \<and>
            (\<forall>j. i < j \<and> j < Suc n \<longrightarrow> \<not> Sprite_In (store g (sprites g ! j)) x y)"
        by (intro exI [of _ n]) auto
    qed
    with True show ?thesis by (simp add: Let_def)
  next
    case False
    have "(\<exists>i<Suc n. sprites g ! i = a \<and> Sprite_In (store g a) x y \<and>
            (\<forall>j. i < j \<and> j < Suc n \<longrightarrow> \<not> Sprite_In (store g (sprites g ! j)) x y))
          \<longleftrightarrow> (\<exists>i<n. sprites g ! i = a \<and> Sprite_In (store g a) x y \<and>
            (\<forall>j. i < j \<and> j < n \<longrightarrow> \<not> Sprite_In (store g (sprites g ! j)) x y))"
      (is "?L \<longleftrightarrow> ?R")
    proof
      assume ?L
      then obtain i where i: "i < Suc n" "sprites g ! i = a" "Sprite_In (store g a) x y"
        "\<forall>j. i < j \<and> j < Suc n \<longrightarrow> \<not> Sprite_In (store g (sprites g ! j)) x y" by blast
      have "i \<noteq> n" using i(2,3) False by auto
      with i(1) have "i < n" by simp
      with i show ?R by (intro exI [of _ i]) auto
    next
      assume ?R
      then obtain i where i: "i < n" "sprites g ! i = a" "Sprite_In (store g a) x y"
        "\<forall>j. i < j \<and> j < n \<longrightarrow> \<not> Sprite_In (store g (sprites g ! j)) x y" by blast
      show ?L using i False by (intro exI [of _ i]) (auto simp: less_Suc_eq)
    qed
    with False Suc.IH show ?thesis by (simp add: Let_def)
  qed
qed

text \<open>
  Claim C3. \<^verbatim>\<open>Game.spriteAt\<close> returns nil exactly when no sprite of the list is
  opaque at the point, and returns a sprite \<open>a\<close> exactly when \<open>a\<close> stands at a
  position of the list where it is opaque at the point and no later position (nearer
  to the front) holds a sprite that is: the last such sprite of the list. A sprite is
  opaque at \<open>(x, y)\<close> when its bitmap has alpha above zero at
  \<open>(x - s.x, y - s.y)\<close>.
\<close>

theorem spriteAt_topmost_opaque:
  "(Game_spriteAt g (x, y) = None \<longleftrightarrow>
      (\<forall>i<length (sprites g). \<not> Sprite_In (store g (sprites g ! i)) x y)) \<and>
   (Game_spriteAt g (x, y) = Some a \<longleftrightarrow>
      (\<exists>i<length (sprites g). sprites g ! i = a \<and> Sprite_In (store g a) x y \<and>
         (\<forall>j. i < j \<and> j < length (sprites g) \<longrightarrow> \<not> Sprite_In (store g (sprites g ! j)) x y))) \<and>
   (Sprite_In s x y \<longleftrightarrow> 0 < img_alpha (s_image s) (x - s_x s) (y - s_y s))"
  unfolding Game_spriteAt_def fst_conv snd_conv
  using spriteAt_loop_None [of g x y "length (sprites g)"]
        spriteAt_loop_Some [of g x y "length (sprites g)" a]
  by (simp add: Sprite_In_def)

theorem spriteAt_topmost_opaque_witness:
  "Game_spriteAt demoGame (35, 35) = Some (Suc 0) \<and>
   Game_spriteAt demoGame (15, 15) = Some 0 \<and>
   Game_spriteAt demoGame (500, 500) = None \<and>
   (\<exists>i<length (sprites demoGame). sprites demoGame ! i = Suc 0 \<and>
      Sprite_In (store demoGame (Suc 0)) 35 35 \<and>
      (\<forall>j. i < j \<and> j < length (sprites demoGame) \<longrightarrow>
           \<not> Sprite_In (store demoGame (sprites demoGame ! j)) 35 35)) \<and>
   \<not> (\<exists>i<length (sprites demoGame). Sprite_In (store demoGame (sprites demoGame ! i)) 500 500)"
proof -
  have a: "Game_spriteAt demoGame (35, 35) = Some (Suc 0)"
    by (simp add: Game_spriteAt_def demo_defs Sprite_In_def Let_def)
  have b: "Game_spriteAt demoGame (15, 15) = Some 0"
    by (simp add: Game_spriteAt_def demo_defs Sprite_In_def Let_def)
  have c: "Game_spriteAt demoGame (500, 500) = None"
    by (simp add: Game_spriteAt_def demo_defs Sprite_In_def Let_def)
  from spriteAt_topmost_opaque [of demoGame 35 35 "Suc 0" "store demoGame 0"]
       spriteAt_topmost_opaque [of demoGame 500 500 0 "store demoGame 0"] a b c
  show ?thesis by blast
qed

lemma spriteAt_in_list:
  "Game_spriteAt g p = Some a \<Longrightarrow> a \<in> set (sprites g)"
  unfolding Game_spriteAt_def using spriteAt_loop_Some [of g "fst p" "snd p" "length (sprites g)" a]
  by auto

subsection \<open>Releasing a stroke\<close>

lemma findIndex_notin: "s \<notin> set xs \<Longrightarrow> findIndex s xs i = - 1"
  by (induction xs arbitrary: i) auto

lemma findIndex_in:
  "s \<in> set xs \<Longrightarrow> 0 \<le> i \<Longrightarrow>
     i \<le> findIndex s xs i \<and> nat (findIndex s xs i - i) < length xs \<and>
     take (nat (findIndex s xs i - i)) xs @ drop (nat (findIndex s xs i - i + 1)) xs = remove1 s xs"
proof (induction xs arbitrary: i)
  case Nil
  then show ?case by simp
next
  case (Cons a xs)
  show ?case
  proof (cases "a = s")
    case True
    then show ?thesis by simp
  next
    case False
    with Cons.prems have "s \<in> set xs" by simp
    from Cons.IH [OF this, of "i + 1"] Cons.prems(2)
    have ih: "i + 1 \<le> findIndex s xs (i + 1)"
      "nat (findIndex s xs (i + 1) - (i + 1)) < length xs"
      "take (nat (findIndex s xs (i + 1) - (i + 1))) xs
         @ drop (nat (findIndex s xs (i + 1) - (i + 1) + 1)) xs = remove1 s xs"
      by simp_all
    have n: "nat (findIndex s xs (i + 1) - i) = Suc (nat (findIndex s xs (i + 1) - (i + 1)))"
      using ih(1) by simp
    have m: "nat (findIndex s xs (i + 1) - i + 1) = Suc (nat (findIndex s xs (i + 1) - (i + 1) + 1))"
      using ih(1) by simp
    show ?thesis using False ih by (simp add: n m)
  qed
qed

lemma findIndex_in0:
  assumes "s \<in> set xs"
  shows "0 \<le> findIndex s xs 0"
    and "take (nat (findIndex s xs 0)) xs @ drop (nat (findIndex s xs 0 + 1)) xs = remove1 s xs"
  using findIndex_in [OF assms, of 0] by simp_all

lemma Update_released_diff:
  "Stroke_IsReleased (Stroke_Update inp s) \<Longrightarrow>
     Stroke_PositionDiff (Stroke_Update inp s) = Stroke_PositionDiff s \<and>
     Stroke_DraggingObject (Stroke_Update inp s) = Stroke_DraggingObject s"
  by (auto simp: Stroke_IsReleased_def Stroke_Update_def Stroke_PositionDiff_def
        Stroke_DraggingObject_def split: if_splits prod.splits)

lemma updateStroke_attached:
  assumes rel: "Stroke_IsReleased (Stroke_Update inp stroke)"
      and obj: "Stroke_DraggingObject stroke = SpritePtr (Some a)"
      and mem: "a \<in> set (sprites g)"
  shows "Game_updateStroke inp g stroke =
           Inr (g\<lparr>store := (store g)(a := Sprite_MoveBy (store g a)
                                           (fst (Stroke_PositionDiff stroke))
                                           (snd (Stroke_PositionDiff stroke))),
                   sprites := remove1 a (sprites g) @ [a]\<rparr>,
                Stroke_SetDraggingObject NilInterface (Stroke_Update inp stroke))"
proof -
  note d = Update_released_diff [OF rel]
  have i: "\<not> findIndex a (sprites g) 0 < 0" using findIndex_in0(1) [OF mem] by simp
  show ?thesis
    unfolding Game_updateStroke_def Let_def
    using rel obj d i findIndex_in0(2) [OF mem]
    by (simp add: split_beta)
qed

lemma updateStroke_no_sprite:
  assumes rel: "Stroke_IsReleased (Stroke_Update inp stroke)"
      and obj: "Stroke_DraggingObject stroke = SpritePtr None"
  shows "Game_updateStroke inp g stroke = Inr (g, Stroke_Update inp stroke)"
  unfolding Game_updateStroke_def Let_def
  using rel obj Update_released_diff [OF rel] by simp

lemma MoveBy_explicit:
  "Sprite_MoveBy s dx dy =
     s\<lparr>s_x := (if word_sless (screenWidth - word_of_nat (img_w (s_image s)))
                     (if word_sless (s_x s + dx) 0 then 0 else s_x s + dx)
                then screenWidth - word_of_nat (img_w (s_image s))
                else (if word_sless (s_x s + dx) 0 then 0 else s_x s + dx)),
       s_y := (if word_sless (screenHeight - word_of_nat (img_h (s_image s)))
                     (if word_sless (s_y s + dy) 0 then 0 else s_y s + dy)
                then screenHeight - word_of_nat (img_h (s_image s))
                else (if word_sless (s_y s + dy) 0 then 0 else s_y s + dy))\<rparr>"
  by (simp add: Sprite_MoveBy_def Image_Size_def Let_def)

lemma clamp_inside:
  fixes v b :: goint
  assumes "word_sle 0 v" "word_sle v b"
  shows "(if word_sless b (if word_sless v 0 then 0 else v) then b
          else (if word_sless v 0 then 0 else v)) = v"
  using assms by (auto simp: word_sle_eq word_sless_alt)

text \<open>
  Claim C1, as amended. When \<^verbatim>\<open>updateStroke\<close> processes the release of a stroke
  whose dragging object is a sprite of the sprite list, it commits one displacement:
  \<^verbatim>\<open>MoveBy\<close> is applied to that sprite once, with the stroke's position delta
  \<open>(dx, dy)\<close>. The new \<open>x\<close> is \<open>x + dx\<close> raised to \<open>0\<close> when negative and then
  lowered to \<open>screenWidth - w\<close> when beyond it, and likewise the new \<open>y\<close>; so the
  sprite is moved by exactly the delta whenever that keeps it on the screen, and to the
  edge of the screen otherwise. Its other fields and every other sprite keep their
  values; the sprite is taken out of the list and put at the end, so it is the last
  (front-most) element and the others keep their relative order; and the stroke lets go
  of the sprite. When the dragging object is a nil sprite, the game is left as it was.
\<close>

theorem updateStroke_release_commits:
  assumes rel: "Stroke_IsReleased (Stroke_Update inp stroke)"
      and diff: "Stroke_PositionDiff stroke = (dx, dy)"
  shows "(Stroke_DraggingObject stroke = SpritePtr (Some a) \<and> a \<in> set (sprites g) \<longrightarrow>
          (\<exists>g' stroke'.
             Game_updateStroke inp g stroke = Inr (g', stroke') \<and>
             store g' a = Sprite_MoveBy (store g a) dx dy \<and>
             s_x (store g' a) =
               (if word_sless (screenWidth - word_of_nat (img_w (s_image (store g a))))
                     (if word_sless (s_x (store g a) + dx) 0 then 0 else s_x (store g a) + dx)
                then screenWidth - word_of_nat (img_w (s_image (store g a)))
                else (if word_sless (s_x (store g a) + dx) 0 then 0
                      else s_x (store g a) + dx)) \<and>
             s_y (store g' a) =
               (if word_sless (screenHeight - word_of_nat (img_h (s_image (store g a))))
                     (if word_sless (s_y (store g a) + dy) 0 then 0 else s_y (store g a) + dy)
                then screenHeight - word_of_nat (img_h (s_image (store g a)))
                else (if word_sless (s_y (store g a) + dy) 0 then 0
                      else s_y (store g a) + dy)) \<and>
             (word_sle 0 (s_x (store g a) + dx) \<and>
              word_sle (s_x (store g a) + dx)
                (screenWidth - word_of_nat (img_w (s_image (store g a)))) \<longrightarrow>
                s_x (store g' a) = s_x (store g a) + dx) \<and>
             (word_sle 0 (s_y (store g a) + dy) \<and>
              word_sle (s_y (store g a) + dy)
                (screenHeight - word_of_nat (img_h (s_image (store g a)))) \<longrightarrow>
                s_y (store g' a) = s_y (store g a) + dy) \<and>
             s_name (store g' a) = s_name (store g a) \<and>
             s_image (store g' a) = s_image (store g a) \<and>
             s_charge (store g' a) = s_charge (store g a) \<and>
             s_chosen (store g' a) = s_chosen (store g a) \<and>
             (\<forall>b. b \<noteq> a \<longrightarrow> store g' b = store g b) \<and>
             sprites g' = remove1 a (sprites g) @ [a] \<and>
             last (sprites g') = a \<and>
             filter (\<lambda>b. b \<noteq> a) (sprites g') = filter (\<lambda>b. b \<noteq> a) (sprites g) \<and>
             Stroke_DraggingObject stroke' = NilInterface)) \<and>
         (Stroke_DraggingObject stroke = SpritePtr None \<longrightarrow>
          Game_updateStroke inp g stroke = Inr (g, Stroke_Update inp stroke))"
proof -
  have f: "filter (\<lambda>b. b \<noteq> a) (remove1 a xs) = filter (\<lambda>b. b \<noteq> a) xs" for xs
    by (induction xs) auto
  let ?s = "store g a"
  let ?m = "Sprite_MoveBy ?s dx dy"
  let ?g = "g\<lparr>store := (store g)(a := ?m), sprites := remove1 a (sprites g) @ [a]\<rparr>"
  let ?t = "Stroke_SetDraggingObject NilInterface (Stroke_Update inp stroke)"
  have x: "s_x ?m =
               (if word_sless (screenWidth - word_of_nat (img_w (s_image ?s)))
                     (if word_sless (s_x ?s + dx) 0 then 0 else s_x ?s + dx)
                then screenWidth - word_of_nat (img_w (s_image ?s))
                else (if word_sless (s_x ?s + dx) 0 then 0 else s_x ?s + dx))"
    and y: "s_y ?m =
               (if word_sless (screenHeight - word_of_nat (img_h (s_image ?s)))
                     (if word_sless (s_y ?s + dy) 0 then 0 else s_y ?s + dy)
                then screenHeight - word_of_nat (img_h (s_image ?s))
                else (if word_sless (s_y ?s + dy) 0 then 0 else s_y ?s + dy))"
    and o: "s_name ?m = s_name ?s" "s_image ?m = s_image ?s" "s_charge ?m = s_charge ?s"
      "s_chosen ?m = s_chosen ?s"
    by (simp_all add: MoveBy_explicit [of ?s dx dy])
  have xi: "s_x ?m = s_x ?s + dx"
    if "word_sle 0 (s_x ?s + dx)"
       "word_sle (s_x ?s + dx) (screenWidth - word_of_nat (img_w (s_image ?s)))"
    unfolding x using clamp_inside [OF that] .
  have yi: "s_y ?m = s_y ?s + dy"
    if "word_sle 0 (s_y ?s + dy)"
       "word_sle (s_y ?s + dy) (screenHeight - word_of_nat (img_h (s_image ?s)))"
    unfolding y using clamp_inside [OF that] .
  have e: "Game_updateStroke inp g stroke = Inr (?g, ?t)"
    if obj: "Stroke_DraggingObject stroke = SpritePtr (Some a)" and mem: "a \<in> set (sprites g)"
    using updateStroke_attached [OF rel obj mem] diff by simp
  have sg: "store ?g a = ?m" by simp
  have "\<exists>g' stroke'.
             Game_updateStroke inp g stroke = Inr (g', stroke') \<and>
             store g' a = Sprite_MoveBy (store g a) dx dy \<and>
             s_x (store g' a) =
               (if word_sless (screenWidth - word_of_nat (img_w (s_image (store g a))))
                     (if word_sless (s_x (store g a) + dx) 0 then 0 else s_x (store g a) + dx)
                then screenWidth - word_of_nat (img_w (s_image (store g a)))
                else (if word_sless (s_x (store g a) + dx) 0 then 0
                      else s_x (store g a) + dx)) \<and>
             s_y (store g' a) =
               (if word_sless (screenHeight - word_of_nat (img_h (s_image (store g a))))
                     (if word_sless (s_y (store g a) + dy) 0 then 0 else s_y (store g a) + dy)
                then screenHeight - word_of_nat (img_h (s_image (store g a)))
                else (if word_sless (s_y (store g a) + dy) 0 then 0
                      else s_y (store g a) + dy)) \<and>
             (word_sle 0 (s_x (store g a) + dx) \<and>
              word_sle (s_x (store g a) + dx)
                (screenWidth - word_of_nat (img_w (s_image (store g a)))) \<longrightarrow>
                s_x (store g' a) = s_x (store g a) + dx) \<and>
             (word_sle 0 (s_y (store g a) + dy) \<and>
              word_sle (s_y (store g a) + dy)
                (screenHeight - word_of_nat (img_h (s_image (store g a)))) \<longrightarrow>
                s_y (store g' a) = s_y (store g a) + dy) \<and>
             s_name (store g' a) = s_name (store g a) \<and>
             s_image (store g' a) = s_image (store g a) \<and>
             s_charge (store g' a) = s_charge (store g a) \<and>
             s_chosen (store g' a) = s_chosen (store g a) \<and>
             (\<forall>b. b \<noteq> a \<longrightarrow> store g' b = store g b) \<and>
             sprites g' = remove1 a (sprites g) @ [a] \<and>
             last (sprites g') = a \<and>
             filter (\<lambda>b. b \<noteq> a) (sprites g') = filter (\<lambda>b. b \<noteq> a) (sprites g) \<and>
             Stroke_DraggingObject stroke' = NilInterface"
    if obj: "Stroke_DraggingObject stroke = SpritePtr (Some a)" and mem: "a \<in> set (sprites g)"
  proof (rule exI [of _ ?g], rule exI [of _ ?t], intro conjI)
    show "Game_updateStroke inp g stroke = Inr (?g, ?t)" by (rule e [OF obj mem])
    show "store ?g a = Sprite_MoveBy (store g a) dx dy" by (rule sg)
    show "s_x (store ?g a) =
               (if word_sless (screenWidth - word_of_nat (img_w (s_image (store g a))))
                     (if word_sless (s_x (store g a) + dx) 0 then 0 else s_x (store g a) + dx)
                then screenWidth - word_of_nat (img_w (s_image (store g a)))
                else (if word_sless (s_x (store g a) + dx) 0 then 0
                      else s_x (store g a) + dx))"
      unfolding sg by (rule x)
    show "s_y (store ?g a) =
               (if word_sless (screenHeight - word_of_nat (img_h (s_image (store g a))))
                     (if word_sless (s_y (store g a) + dy) 0 then 0 else s_y (store g a) + dy)
                then screenHeight - word_of_nat (img_h (s_image (store g a)))
                else (if word_sless (s_y (store g a) + dy) 0 then 0
                      else s_y (store g a) + dy))"
      unfolding sg by (rule y)
    show "word_sle 0 (s_x (store g a) + dx) \<and>
              word_sle (s_x (store g a) + dx)
                (screenWidth - word_of_nat (img_w (s_image (store g a)))) \<longrightarrow>
                s_x (store ?g a) = s_x (store g a) + dx"
      unfolding sg using xi by blast
    show "word_sle 0 (s_y (store g a) + dy) \<and>
              word_sle (s_y (store g a) + dy)
                (screenHeight - word_of_nat (img_h (s_image (store g a)))) \<longrightarrow>
                s_y (store ?g a) = s_y (store g a) + dy"
      unfolding sg using yi by blast
    show "s_name (store ?g a) = s_name (store g a)" unfolding sg by (rule o)
    show "s_image (store ?g a) = s_image (store g a)" unfolding sg by (rule o)
    show "s_charge (store ?g a) = s_charge (store g a)" unfolding sg by (rule o)
    show "s_chosen (store ?g a) = s_chosen (store g a)" unfolding sg by (rule o)
    show "\<forall>b. b \<noteq> a \<longrightarrow> store ?g b = store g b" by simp
    show "sprites ?g = remove1 a (sprites g) @ [a]" by simp
    show "last (sprites ?g) = a" by simp
    show "filter (\<lambda>b. b \<noteq> a) (sprites ?g) = filter (\<lambda>b. b \<noteq> a) (sprites g)"
      by (simp add: f)
    show "Stroke_DraggingObject ?t = NilInterface"
      by (simp add: Stroke_SetDraggingObject_def Stroke_DraggingObject_def)
  qed
  then show ?thesis
    using updateStroke_no_sprite [OF rel, of g] by blast
qed


theorem updateStroke_release_commits_witness:
  "Stroke_IsReleased (Stroke_Update releaseInput (demoStroke (SpritePtr (Some 0)))) \<and>
   Stroke_PositionDiff (demoStroke (SpritePtr (Some 0))) = (5, 7) \<and>
   Stroke_DraggingObject (demoStroke (SpritePtr (Some 0))) = SpritePtr (Some 0) \<and>
   0 \<in> set (sprites demoGame) \<and>
   store demoGame 0 = demoSprite ''Q0'' 10 10 False \<and>
   word_sle 0 (s_x (store demoGame 0) + 5) \<and>
   word_sle (s_x (store demoGame 0) + 5)
     (screenWidth - word_of_nat (img_w (s_image (store demoGame 0)))) \<and>
   word_sle 0 (s_y (store demoGame 0) + 7) \<and>
   word_sle (s_y (store demoGame 0) + 7)
     (screenHeight - word_of_nat (img_h (s_image (store demoGame 0)))) \<and>
   (\<exists>g' stroke'.
      Game_updateStroke releaseInput demoGame (demoStroke (SpritePtr (Some 0)))
        = Inr (g', stroke') \<and>
      store g' 0 = demoSprite ''Q0'' 15 17 False \<and>
      store g' (Suc 0) = demoSprite ''Q1'' 30 30 False \<and>
      sprites g' = [Suc 0, 0] \<and>
      Stroke_DraggingObject stroke' = NilInterface) \<and>
   Stroke_IsReleased (Stroke_Update releaseInput (demoStroke (SpritePtr None))) \<and>
   Stroke_DraggingObject (demoStroke (SpritePtr None)) = SpritePtr None \<and>
   Game_updateStroke releaseInput demoGame (demoStroke (SpritePtr None))
     = Inr (demoGame, Stroke_Update releaseInput (demoStroke (SpritePtr None)))"
proof -
  have rn: "Stroke_IsReleased (Stroke_Update releaseInput (demoStroke (SpritePtr None)))"
    by (simp add: Stroke_IsReleased_def Stroke_Update_def demo_defs)
  have pn: "Stroke_PositionDiff (demoStroke (SpritePtr None)) = (5, 7)"
    by (simp add: Stroke_PositionDiff_def demo_defs)
  have dn: "Stroke_DraggingObject (demoStroke (SpritePtr None)) = SpritePtr None"
    by (simp add: Stroke_DraggingObject_def demo_defs)
  from updateStroke_release_commits [OF rn pn, of 0 demoGame] dn
  have n: "Game_updateStroke releaseInput demoGame (demoStroke (SpritePtr None))
             = Inr (demoGame, Stroke_Update releaseInput (demoStroke (SpritePtr None)))"
    by blast
  have r: "Stroke_IsReleased (Stroke_Update releaseInput (demoStroke (SpritePtr (Some 0))))"
    by (simp add: Stroke_IsReleased_def Stroke_Update_def demo_defs)
  have d: "Stroke_DraggingObject (demoStroke (SpritePtr (Some 0))) = SpritePtr (Some 0)"
    by (simp add: Stroke_DraggingObject_def demo_defs)
  have m: "0 \<in> set (sprites demoGame)"
    by (simp add: demo_defs)
  have p: "Stroke_PositionDiff (demoStroke (SpritePtr (Some 0))) = (5, 7)"
    by (simp add: Stroke_PositionDiff_def demo_defs)
  have s0: "store demoGame 0 = demoSprite ''Q0'' 10 10 False"
    by (simp add: demo_defs)
  have b: "word_sle 0 (s_x (store demoGame 0) + 5)"
    "word_sle (s_x (store demoGame 0) + 5)
       (screenWidth - word_of_nat (img_w (s_image (store demoGame 0))))"
    "word_sle 0 (s_y (store demoGame 0) + 7)"
    "word_sle (s_y (store demoGame 0) + 7)
       (screenHeight - word_of_nat (img_h (s_image (store demoGame 0))))"
    by (simp_all add: demo_defs screen_defs)
  have v: "Sprite_MoveBy (store demoGame 0) 5 7 = demoSprite ''Q0'' 15 17 False"
    by (simp add: Sprite_MoveBy_def demo_defs screen_defs Let_def)
  have o: "store demoGame (Suc 0) = demoSprite ''Q1'' 30 30 False"
          "remove1 0 (sprites demoGame) @ [0] = [Suc 0, 0]"
    by (simp_all add: demo_defs)
  from updateStroke_release_commits [OF r p, of 0 demoGame] d m obtain g' stroke' where
    "Game_updateStroke releaseInput demoGame (demoStroke (SpritePtr (Some 0))) = Inr (g', stroke')"
    "store g' 0 = Sprite_MoveBy (store demoGame 0) 5 7"
    "\<forall>b. b \<noteq> 0 \<longrightarrow> store g' b = store demoGame b"
    "sprites g' = remove1 0 (sprites demoGame) @ [0]"
    "Stroke_DraggingObject stroke' = NilInterface"
    by blast
  then have "\<exists>g' stroke'.
      Game_updateStroke releaseInput demoGame (demoStroke (SpritePtr (Some 0)))
        = Inr (g', stroke') \<and>
      store g' 0 = demoSprite ''Q0'' 15 17 False \<and>
      store g' (Suc 0) = demoSprite ''Q1'' 30 30 False \<and>
      sprites g' = [Suc 0, 0] \<and>
      Stroke_DraggingObject stroke' = NilInterface"
    using v o by (intro exI [of _ g'] exI [of _ stroke']) simp
  with r p d m s0 b rn dn n show ?thesis by (intro conjI)
qed

text \<open>
  The claim as it was written fails in two ways. It speaks of every stroke whose release
  is processed: a stroke that went down on the empty canvas carries a nil sprite, its
  release is processed too, with a delta of \<open>(5, 7)\<close> here, and the guard
  \<^verbatim>\<open>if s == nil { return }\<close> leaves the store and the sprite list as they were, so
  no displacement is committed and no sprite is promoted. And it says that the attached
  sprite is moved by the position delta: the sprite at \<open>(10, 10)\<close>, grabbed at
  \<open>(12, 12)\<close> and dropped at \<open>(0, 0)\<close>, has the delta \<open>(-12, -12)\<close> and ends at
  \<open>(0, 0)\<close>, where the clamps of \<^verbatim>\<open>MoveBy\<close> put it, not at \<open>(-2, -2)\<close>.
\<close>

theorem updateStroke_release_counterexample:
  "Stroke_IsReleased (Stroke_Update releaseInput (demoStroke (SpritePtr None))) \<and>
   Stroke_PositionDiff (demoStroke (SpritePtr None)) = (5, 7) \<and>
   Game_updateStroke releaseInput demoGame (demoStroke (SpritePtr None))
     = Inr (demoGame, (demoStroke (SpritePtr None))\<lparr>released := True\<rparr>) \<and>
   Stroke_IsReleased (Stroke_Update releaseInput offScreenStroke) \<and>
   Stroke_DraggingObject offScreenStroke = SpritePtr (Some 0) \<and>
   Stroke_PositionDiff offScreenStroke = (- 12, - 12) \<and>
   store demoGame 0 = demoSprite ''Q0'' 10 10 False \<and>
   s_x (store demoGame 0) + fst (Stroke_PositionDiff offScreenStroke) = - 2 \<and>
   s_y (store demoGame 0) + snd (Stroke_PositionDiff offScreenStroke) = - 2 \<and>
   Game_updateStroke releaseInput demoGame offScreenStroke
     = Inr (demoGame\<lparr>store := (store demoGame)(0 := demoSprite ''Q0'' 0 0 False),
                      sprites := [Suc 0, 0]\<rparr>,
            offScreenStroke\<lparr>released := True, draggingObject := NilInterface\<rparr>)"
proof -
  have n: "Stroke_IsReleased (Stroke_Update releaseInput (demoStroke (SpritePtr None))) \<and>
     Stroke_PositionDiff (demoStroke (SpritePtr None)) = (5, 7) \<and>
     Game_updateStroke releaseInput demoGame (demoStroke (SpritePtr None))
       = Inr (demoGame, (demoStroke (SpritePtr None))\<lparr>released := True\<rparr>)"
    by (simp add: Game_updateStroke_def Stroke_IsReleased_def Stroke_Update_def
        Stroke_PositionDiff_def Stroke_DraggingObject_def releaseInput_def quietInput_def
        demoStroke_def)
  have r: "Stroke_IsReleased (Stroke_Update releaseInput offScreenStroke)"
    by (simp add: Stroke_IsReleased_def Stroke_Update_def demo_defs)
  have d: "Stroke_DraggingObject offScreenStroke = SpritePtr (Some 0)"
    by (simp add: Stroke_DraggingObject_def demo_defs)
  have p: "Stroke_PositionDiff offScreenStroke = (- 12, - 12)"
    by (simp add: Stroke_PositionDiff_def demo_defs)
  have s0: "store demoGame 0 = demoSprite ''Q0'' 10 10 False"
    by (simp add: demo_defs)
  have a: "s_x (store demoGame 0) + fst (Stroke_PositionDiff offScreenStroke) = - 2"
          "s_y (store demoGame 0) + snd (Stroke_PositionDiff offScreenStroke) = - 2"
    unfolding p by (simp_all add: demo_defs)
  have m: "0 \<in> set (sprites demoGame)"
    by (simp add: demo_defs)
  have v: "Sprite_MoveBy (store demoGame 0) (- 12) (- 12) = demoSprite ''Q0'' 0 0 False"
    by (simp add: Sprite_MoveBy_def demo_defs screen_defs Let_def)
  have u: "Stroke_SetDraggingObject NilInterface (Stroke_Update releaseInput offScreenStroke)
             = offScreenStroke\<lparr>released := True, draggingObject := NilInterface\<rparr>"
    by (simp add: Stroke_SetDraggingObject_def Stroke_Update_def demo_defs)
  have l: "remove1 0 (sprites demoGame) @ [0] = [Suc 0, 0]"
    by (simp add: demo_defs)
  have e: "Game_updateStroke releaseInput demoGame offScreenStroke
     = Inr (demoGame\<lparr>store := (store demoGame)(0 := demoSprite ''Q0'' 0 0 False),
                      sprites := [Suc 0, 0]\<rparr>,
            offScreenStroke\<lparr>released := True, draggingObject := NilInterface\<rparr>)"
    unfolding updateStroke_attached [OF r d m] p fst_conv snd_conv v u l by (rule refl)
  from n r d p s0 a e show ?thesis by (intro conjI) simp_all
qed

subsection \<open>The key loops\<close>

lemma fold_chosen_unchosen:
  "\<not> s_chosen (st a) \<Longrightarrow>
     fold (\<lambda>s st. if s_chosen (st s) then st(s := f (st s)) else st) xs st a = st a"
proof (induction xs arbitrary: st)
  case Nil
  then show ?case by simp
next
  case (Cons s xs)
  let ?st = "if s_chosen (st s) then st(s := f (st s)) else st"
  have e: "?st a = st a" using Cons.prems by auto
  with Cons.prems have "\<not> s_chosen (?st a)" by simp
  from Cons.IH [of ?st, OF this] e show ?case by simp
qed

lemma fold_chosen_other:
  "a \<notin> set xs \<Longrightarrow>
     fold (\<lambda>s st. if s_chosen (st s) then st(s := f (st s)) else st) xs st a = st a"
proof (induction xs arbitrary: st)
  case Nil
  then show ?case by simp
next
  case (Cons s xs)
  let ?st = "if s_chosen (st s) then st(s := f (st s)) else st"
  from Cons.prems have n: "a \<notin> set xs" and e: "?st a = st a" by auto
  from Cons.IH [OF n, of ?st] e show ?case by simp
qed

lemma fold_chosen_hit:
  "distinct xs \<Longrightarrow> a \<in> set xs \<Longrightarrow> s_chosen (st a) \<Longrightarrow>
     fold (\<lambda>s st. if s_chosen (st s) then st(s := f (st s)) else st) xs st a = f (st a)"
proof (induction xs arbitrary: st)
  case Nil
  then show ?case by simp
next
  case (Cons s xs)
  let ?st = "if s_chosen (st s) then st(s := f (st s)) else st"
  show ?case
  proof (cases "s = a")
    case True
    with Cons.prems have "a \<notin> set xs" by simp
    from fold_chosen_other [OF this, of f ?st] True Cons.prems(3) show ?thesis by simp
  next
    case False
    with Cons.prems have d: "distinct xs" and m: "a \<in> set xs" by simp_all
    from False have e: "?st a = st a" by simp
    with Cons.prems(3) have c: "s_chosen (?st a)" by simp
    from Cons.IH [of ?st, OF d m c] e show ?thesis by simp
  qed
qed

lemma fold_chosen_flag:
  "(\<And>s. s_chosen (f s) = s_chosen s) \<Longrightarrow>
     s_chosen (fold (\<lambda>s st. if s_chosen (st s) then st(s := f (st s)) else st) xs st a)
       = s_chosen (st a)"
  by (induction xs arbitrary: st) auto

lemma forChosen_fields:
  "sprites (forChosen f g) = sprites g" "strokes (forChosen f g) = strokes g"
  "ChosenSprite (forChosen f g) = ChosenSprite g" "nalloc (forChosen f g) = nalloc g"
  by (simp_all add: forChosen_def)

lemma forChosen_unchosen:
  "\<not> s_chosen (store g a) \<Longrightarrow> store (forChosen f g) a = store g a"
  by (simp add: forChosen_def fold_chosen_unchosen)

lemma forChosen_other:
  "a \<notin> set (sprites g) \<Longrightarrow> store (forChosen f g) a = store g a"
  by (simp add: forChosen_def fold_chosen_other)

lemma forChosen_hit:
  "distinct (sprites g) \<Longrightarrow> a \<in> set (sprites g) \<Longrightarrow> s_chosen (store g a) \<Longrightarrow>
     store (forChosen f g) a = f (store g a)"
  by (simp add: forChosen_def fold_chosen_hit)

lemma forChosen_flag:
  "(\<And>s. s_chosen (f s) = s_chosen s) \<Longrightarrow>
     s_chosen (store (forChosen f g) a) = s_chosen (store g a)"
  by (simp add: forChosen_def fold_chosen_flag)

text \<open>
  Claim C5. The loops run for the keys \<^verbatim>\<open>P\<close> and \<^verbatim>\<open>N\<close> leave every sprite
  that is not flagged chosen exactly as it was (charge, position, name, image and flag),
  as they do every sprite outside the list; a chosen sprite of the list (which holds no
  pointer twice) has its charge replaced by the float64 sum \<^verbatim>\<open>charge + 0.1\<close>, or
  the float64 difference \<^verbatim>\<open>charge - 0.1\<close>, once, and keeps its other fields. The
  sprite list, the strokes and \<^verbatim>\<open>ChosenSprite\<close> are not touched.
\<close>

theorem charge_adjust_only_chosen:
  "(\<not> s_chosen (store g a) \<longrightarrow>
      store (increaseCharge ops g) a = store g a \<and>
      store (decreaseCharge ops g) a = store g a) \<and>
   (a \<notin> set (sprites g) \<longrightarrow>
      store (increaseCharge ops g) a = store g a \<and>
      store (decreaseCharge ops g) a = store g a) \<and>
   (distinct (sprites g) \<and> a \<in> set (sprites g) \<and> s_chosen (store g a) \<longrightarrow>
      store (increaseCharge ops g) a
        = (store g a)\<lparr>s_charge := f_add ops (s_charge (store g a)) (f_const ops (1 / 10))\<rparr> \<and>
      store (decreaseCharge ops g) a
        = (store g a)\<lparr>s_charge := f_sub ops (s_charge (store g a)) (f_const ops (1 / 10))\<rparr>) \<and>
   sprites (increaseCharge ops g) = sprites g \<and>
   sprites (decreaseCharge ops g) = sprites g \<and>
   strokes (increaseCharge ops g) = strokes g \<and>
   strokes (decreaseCharge ops g) = strokes g \<and>
   ChosenSprite (increaseCharge ops g) = ChosenSprite g \<and>
   ChosenSprite (decreaseCharge ops g) = ChosenSprite g"
  unfolding increaseCharge_def decreaseCharge_def
  by (simp add: forChosen_fields forChosen_unchosen forChosen_other forChosen_hit)

theorem charge_adjust_only_chosen_witness:
  "distinct (sprites chosenGame) \<and> 0 \<in> set (sprites chosenGame) \<and>
   s_chosen (store chosenGame 0) \<and> \<not> s_chosen (store chosenGame (Suc 0)) \<and>
   store (increaseCharge realOps chosenGame) 0 = (demoSprite ''Q0'' 10 10 True)\<lparr>s_charge := 1 / 10\<rparr> \<and>
   store (decreaseCharge realOps chosenGame) 0 = (demoSprite ''Q0'' 10 10 True)\<lparr>s_charge := - (1 / 10)\<rparr> \<and>
   store (increaseCharge realOps chosenGame) (Suc 0) = demoSprite ''Q1'' 30 30 False \<and>
   store (decreaseCharge realOps chosenGame) (Suc 0) = demoSprite ''Q1'' 30 30 False \<and>
   5 \<notin> set (sprites chosenGame) \<and>
   store (increaseCharge realOps chosenGame) 5 = store chosenGame 5 \<and>
   store (decreaseCharge realOps chosenGame) 5 = store chosenGame 5"
proof -
  have o: "5 \<notin> set (sprites chosenGame)"
    by (simp add: demo_defs)
  have h: "distinct (sprites chosenGame)" "0 \<in> set (sprites chosenGame)"
    "s_chosen (store chosenGame 0)" "\<not> s_chosen (store chosenGame (Suc 0))"
    by (simp_all add: demo_defs)
  have v: "store chosenGame 0 = demoSprite ''Q0'' 10 10 True"
    "store chosenGame (Suc 0) = demoSprite ''Q1'' 30 30 False"
    "s_charge (demoSprite ''Q0'' 10 10 True) = 0"
    "f_add realOps 0 (f_const realOps (1 / 10)) = 1 / 10"
    "f_sub realOps 0 (f_const realOps (1 / 10)) = - (1 / 10)"
    by (simp_all add: demo_defs)
  from charge_adjust_only_chosen [of chosenGame 0 realOps]
       charge_adjust_only_chosen [of chosenGame "Suc 0" realOps]
       charge_adjust_only_chosen [of chosenGame 5 realOps] h o
  show ?thesis by (simp add: v)
qed

lemma sint_add_small:
  fixes x :: goint
  assumes "- 1000 \<le> sint x" "sint x \<le> 1000" "- 1000 \<le> c" "c \<le> 1000"
  shows "sint (x + word_of_int c) = sint x + c"
proof -
  have c: "sint (word_of_int c :: goint) = c"
    using assms by (simp add: sint_sbintrunc' signed_take_bit_int_eq_self)
  have "signed_take_bit 63 (sint x + c) = sint x + c"
    using assms by (intro signed_take_bit_int_eq_self) simp_all
  then show ?thesis
    by (simp add: sint_word_ariths c)
qed

lemma nudge_arith:
  fixes x :: goint
  shows "word_sle 0 x \<Longrightarrow> word_sless x 80 \<Longrightarrow> word_sless (x - 80) 0"
    and "word_sle 0 x \<Longrightarrow> word_sless x 54 \<Longrightarrow> word_sless (x - 54) 0"
    and "word_sless 720 x \<Longrightarrow> word_sle x 800 \<Longrightarrow> word_sless 800 (x + 80)"
    and "word_sless 486 x \<Longrightarrow> word_sle x 540 \<Longrightarrow> word_sless 540 (x + 54)"
proof -
  show "word_sle 0 x \<Longrightarrow> word_sless x 80 \<Longrightarrow> word_sless (x - 80) 0"
    using sint_add_small [of x "- 80"] by (simp add: word_sle_eq word_sless_alt)
  show "word_sle 0 x \<Longrightarrow> word_sless x 54 \<Longrightarrow> word_sless (x - 54) 0"
    using sint_add_small [of x "- 54"] by (simp add: word_sle_eq word_sless_alt)
  show "word_sless 720 x \<Longrightarrow> word_sle x 800 \<Longrightarrow> word_sless 800 (x + 80)"
    using sint_add_small [of x "80"] by (simp add: word_sle_eq word_sless_alt)
  show "word_sless 486 x \<Longrightarrow> word_sle x 540 \<Longrightarrow> word_sless 540 (x + 54)"
    using sint_add_small [of x "54"] by (simp add: word_sle_eq word_sless_alt)
qed

lemma nudge_loops:
  assumes "distinct (sprites g)" "a \<in> set (sprites g)" "s_chosen (store g a)"
  shows "store (nudgeUp g) a = (store g a)\<lparr>s_y := s_y (store g a) - 54\<rparr> \<and>
         store (nudgeDown g) a = (store g a)\<lparr>s_y := s_y (store g a) + 54\<rparr> \<and>
         store (nudgeRight g) a = (store g a)\<lparr>s_x := s_x (store g a) + 80\<rparr> \<and>
         store (nudgeLeft g) a = (store g a)\<lparr>s_x := s_x (store g a) - 80\<rparr> \<and>
         (word_sle 0 (s_x (store g a)) \<and> word_sless (s_x (store g a)) 80 \<longrightarrow>
            word_sless (s_x (store (nudgeLeft g) a)) 0) \<and>
         (word_sle 0 (s_y (store g a)) \<and> word_sless (s_y (store g a)) 54 \<longrightarrow>
            word_sless (s_y (store (nudgeUp g) a)) 0) \<and>
         (word_sless 720 (s_x (store g a)) \<and> word_sle (s_x (store g a)) screenWidth \<longrightarrow>
            word_sless screenWidth (s_x (store (nudgeRight g) a))) \<and>
         (word_sless 486 (s_y (store g a)) \<and> word_sle (s_y (store g a)) screenHeight \<longrightarrow>
            word_sless screenHeight (s_y (store (nudgeDown g) a)))"
proof -
  have u: "store (nudgeUp g) a = (store g a)\<lparr>s_y := s_y (store g a) - 54\<rparr>"
    and d: "store (nudgeDown g) a = (store g a)\<lparr>s_y := s_y (store g a) + 54\<rparr>"
    and r: "store (nudgeRight g) a = (store g a)\<lparr>s_x := s_x (store g a) + 80\<rparr>"
    and l: "store (nudgeLeft g) a = (store g a)\<lparr>s_x := s_x (store g a) - 80\<rparr>"
    unfolding nudgeUp_def nudgeDown_def nudgeRight_def nudgeLeft_def
    using assms by (simp_all add: forChosen_hit)
  show ?thesis
    unfolding u d r l
    by (simp add: nudge_arith screenWidth_def fullScreenWidth_def screenHeight_def)
qed

subsection \<open>The stroke loop\<close>

lemma updateStroke_Inr:
  assumes "Game_updateStroke inp g s = Inr (g', s')"
  shows "(g' = g \<and> s' = Stroke_Update inp s \<and>
            (\<not> released (Stroke_Update inp s) \<or>
             draggingObject (Stroke_Update inp s) = SpritePtr None)) \<or>
         (\<exists>a. released (Stroke_Update inp s) \<and>
              draggingObject (Stroke_Update inp s) = SpritePtr (Some a) \<and>
              a \<in> set (sprites g) \<and>
              g' = g\<lparr>store := (store g)(a := Sprite_MoveBy (store g a)
                                   (fst (Stroke_PositionDiff (Stroke_Update inp s)))
                                   (snd (Stroke_PositionDiff (Stroke_Update inp s)))),
                      sprites := remove1 a (sprites g) @ [a]\<rparr> \<and>
              s' = (Stroke_Update inp s)\<lparr>draggingObject := NilInterface\<rparr>)"
proof (cases "released (Stroke_Update inp s)")
  case False
  with assms show ?thesis
    by (simp add: Game_updateStroke_def Stroke_IsReleased_def)
next
  case True
  show ?thesis
  proof (cases "draggingObject (Stroke_Update inp s)")
    case NilInterface
    with True assms show ?thesis
      by (simp add: Game_updateStroke_def Stroke_IsReleased_def Stroke_DraggingObject_def)
  next
    case (SpritePtr p)
    show ?thesis
    proof (cases p)
      case None
      with True SpritePtr assms show ?thesis
        by (simp add: Game_updateStroke_def Stroke_IsReleased_def Stroke_DraggingObject_def)
    next
      case (Some a)
      have i: "\<not> findIndex a (sprites g) 0 < 0"
        using True SpritePtr Some assms
        by (auto simp: Game_updateStroke_def Stroke_IsReleased_def Stroke_DraggingObject_def
              Let_def split_beta split: if_splits)
      then have m: "a \<in> set (sprites g)"
        using findIndex_notin [of a "sprites g" 0] by auto
      have "g' = g\<lparr>store := (store g)(a := Sprite_MoveBy (store g a)
                                   (fst (Stroke_PositionDiff (Stroke_Update inp s)))
                                   (snd (Stroke_PositionDiff (Stroke_Update inp s)))),
                      sprites := remove1 a (sprites g) @ [a]\<rparr> \<and>
              s' = (Stroke_Update inp s)\<lparr>draggingObject := NilInterface\<rparr>"
        using True SpritePtr Some assms i findIndex_in0(2) [OF m]
        by (simp add: Game_updateStroke_def Stroke_IsReleased_def Stroke_DraggingObject_def
              Stroke_SetDraggingObject_def Let_def split_beta)
      with True SpritePtr Some m show ?thesis by blast
    qed
  qed
qed

lemma updateStroke_released:
  "Game_updateStroke inp g s = Inr (g', s') \<Longrightarrow> released s' = released (Stroke_Update inp s)"
  by (drule updateStroke_Inr) auto

lemma updateStroke_unreleased:
  "Game_updateStroke inp g s = Inr (g', s') \<Longrightarrow> \<not> released s' \<Longrightarrow> s' = Stroke_Update inp s"
  by (drule updateStroke_Inr) auto

lemma updateStroke_sprites:
  "Game_updateStroke inp g s = Inr (g', s') \<Longrightarrow> mset (sprites g') = mset (sprites g)"
  by (drule updateStroke_Inr) auto

lemma MoveBy_chosen: "s_chosen (Sprite_MoveBy s dx dy) = s_chosen s"
  by (simp add: Sprite_MoveBy_def Let_def split_beta)

lemma updateStroke_inv:
  assumes "Game_updateStroke inp g s = Inr (g', s')" "chosen_inv g"
  shows "chosen_inv g'"
proof -
  from updateStroke_Inr [OF assms(1)] show ?thesis
  proof
    assume "g' = g \<and> s' = Stroke_Update inp s \<and>
            (\<not> released (Stroke_Update inp s) \<or>
             draggingObject (Stroke_Update inp s) = SpritePtr None)"
    with assms(2) show ?thesis by simp
  next
    assume "\<exists>a. released (Stroke_Update inp s) \<and>
              draggingObject (Stroke_Update inp s) = SpritePtr (Some a) \<and>
              a \<in> set (sprites g) \<and>
              g' = g\<lparr>store := (store g)(a := Sprite_MoveBy (store g a)
                                   (fst (Stroke_PositionDiff (Stroke_Update inp s)))
                                   (snd (Stroke_PositionDiff (Stroke_Update inp s)))),
                      sprites := remove1 a (sprites g) @ [a]\<rparr> \<and>
              s' = (Stroke_Update inp s)\<lparr>draggingObject := NilInterface\<rparr>"
    then obtain a where a: "a \<in> set (sprites g)"
      and g': "g' = g\<lparr>store := (store g)(a := Sprite_MoveBy (store g a)
                                   (fst (Stroke_PositionDiff (Stroke_Update inp s)))
                                   (snd (Stroke_PositionDiff (Stroke_Update inp s)))),
                      sprites := remove1 a (sprites g) @ [a]\<rparr>"
      by blast
    from assms(2) have d: "distinct (sprites g)" by (simp add: chosen_inv_def)
    have s: "set (remove1 a (sprites g) @ [a]) = set (sprites g)"
      using a d by auto
    have d': "distinct (remove1 a (sprites g) @ [a])"
      using d by simp
    show ?thesis
      unfolding chosen_inv_def g' using assms(2) s d'
      by (auto simp: chosen_inv_def MoveBy_chosen)
  qed
qed

lemma strokesLoop_kept:
  "strokesLoop inp g ss = Inr (g', kept) \<Longrightarrow>
     kept = filter (\<lambda>s. \<not> released s) (map (Stroke_Update inp) ss)"
proof (induction ss arbitrary: g g' kept)
  case Nil
  then show ?case by simp
next
  case (Cons s ss)
  from Cons.prems obtain g1 s1 g2 kept2 where
    u: "Game_updateStroke inp g s = Inr (g1, s1)" and
    l: "strokesLoop inp g1 ss = Inr (g2, kept2)" and
    k: "kept = (if Stroke_IsReleased s1 then kept2 else s1 # kept2)"
    by (auto split: sum.splits prod.splits)
  from Cons.IH [OF l] have ih: "kept2 = filter (\<lambda>s. \<not> released s) (map (Stroke_Update inp) ss)" .
  show ?case
    using k ih updateStroke_released [OF u] updateStroke_unreleased [OF u]
    by (auto simp: Stroke_IsReleased_def)
qed

lemma strokesLoop_sprites:
  "strokesLoop inp g ss = Inr (g', kept) \<Longrightarrow> mset (sprites g') = mset (sprites g)"
proof (induction ss arbitrary: g g' kept)
  case Nil
  then show ?case by simp
next
  case (Cons s ss)
  from Cons.prems obtain g1 s1 g2 kept2 where
    u: "Game_updateStroke inp g s = Inr (g1, s1)" and
    l: "strokesLoop inp g1 ss = Inr (g2, kept2)" and
    k: "g' = g2"
    by (auto split: sum.splits prod.splits)
  from Cons.IH [OF l] updateStroke_sprites [OF u] k show ?case by simp
qed

lemma strokesLoop_inv:
  "strokesLoop inp g ss = Inr (g', kept) \<Longrightarrow> chosen_inv g \<Longrightarrow> chosen_inv g'"
proof (induction ss arbitrary: g g' kept)
  case Nil
  then show ?case by simp
next
  case (Cons s ss)
  from Cons.prems(1) obtain g1 s1 g2 kept2 where
    u: "Game_updateStroke inp g s = Inr (g1, s1)" and
    l: "strokesLoop inp g1 ss = Inr (g2, kept2)" and
    k: "g' = g2"
    by (auto split: sum.splits prod.splits)
  from Cons.IH [OF l updateStroke_inv [OF u Cons.prems(2)]] k show ?case by simp
qed

subsection \<open>Every part of a frame keeps the invariant of the chosen flag\<close>

lemma fold_unchoose:
  "fold (\<lambda>s st. st(s := (st s)\<lparr>s_chosen := False\<rparr>)) xs st a
     = (if a \<in> set xs then (st a)\<lparr>s_chosen := False\<rparr> else st a)"
proof (induction xs arbitrary: st)
  case Nil
  then show ?case by simp
next
  case (Cons s xs)
  show ?case
    unfolding fold_Cons comp_def Cons.IH by simp
qed

lemma unchooseAll_store:
  "store (unchooseAll g) a
     = (if a \<in> set (sprites g) then (store g a)\<lparr>s_chosen := False\<rparr> else store g a)"
  by (simp add: unchooseAll_def fold_unchoose)

lemma unchooseAll_fields:
  "sprites (unchooseAll g) = sprites g" "nalloc (unchooseAll g) = nalloc g"
  "strokes (unchooseAll g) = strokes g" "ChosenSprite (unchooseAll g) = ChosenSprite g"
  by (simp_all add: unchooseAll_def)

lemma pointerDown_fields:
  "sprites (pointerDown inp src g) = sprites g" "nalloc (pointerDown inp src g) = nalloc g"
  by (simp_all add: pointerDown_def Let_def unchooseAll_def split: option.splits)

lemma pointerDown_chosen:
  "ChosenSprite (pointerDown inp src g) = Game_spriteAt g (Stroke_Position (NewStroke inp src))"
  "a \<in> set (sprites g) \<Longrightarrow>
     s_chosen (store (pointerDown inp src g) a)
       \<longleftrightarrow> Game_spriteAt g (Stroke_Position (NewStroke inp src)) = Some a"
  by (auto simp: pointerDown_def Let_def unchooseAll_store unchooseAll_fields
        split: option.splits)

lemma pointerDown_inv:
  assumes "chosen_inv g"
  shows "chosen_inv (pointerDown inp src g)"
  unfolding chosen_inv_def pointerDown_fields
  using assms spriteAt_in_list [of g "Stroke_Position (NewStroke inp src)"]
  by (auto simp: chosen_inv_def pointerDown_chosen split: option.splits)

lemma fold_pointerDown_fields:
  "sprites (fold (\<lambda>i. pointerDown inp (TouchStrokeSource i)) ids g) = sprites g"
  "nalloc (fold (\<lambda>i. pointerDown inp (TouchStrokeSource i)) ids g) = nalloc g"
  by (induction ids arbitrary: g) (simp_all add: pointerDown_fields)

lemma fold_pointerDown_inv:
  "chosen_inv g \<Longrightarrow> chosen_inv (fold (\<lambda>i. pointerDown inp (TouchStrokeSource i)) ids g)"
  by (induction ids arbitrary: g) (simp_all add: pointerDown_inv)

lemma addSprite_fields:
  "sprites (addSprite ops as inp g) = sprites g @ [nalloc g]"
  "nalloc (addSprite ops as inp g) = Suc (nalloc g)"
  "ChosenSprite (addSprite ops as inp g) = ChosenSprite g"
  by (simp_all add: addSprite_def alloc_def Let_def)

lemma addSprite_store:
  "store (addSprite ops as inp g) a =
     (if a = nalloc g
      then \<lparr>s_name = ''Q'' @ Itoa (length (sprites g)), s_image = neutralImage as,
            s_x = randX inp, s_y = randY inp, s_charge = f_const ops 0, s_chosen = False\<rparr>
      else store g a)"
  by (simp add: addSprite_def alloc_def Let_def)

lemma addSprite_inv:
  assumes "chosen_inv g"
  shows "chosen_inv (addSprite ops as inp g)"
proof -
  from assms have b: "\<forall>a\<in>set (sprites g). a < nalloc g" by (simp add: chosen_inv_def)
  then have n: "nalloc g \<notin> set (sprites g)" by auto
  then have c: "ChosenSprite g \<noteq> Some (nalloc g)"
    using assms by (auto simp: chosen_inv_def split: option.splits)
  show ?thesis
    unfolding chosen_inv_def addSprite_fields
    using assms n c
    by (auto simp: chosen_inv_def addSprite_store less_Suc_eq split: option.splits)
qed

lemma forChosen_inv:
  assumes "\<And>s. s_chosen (f s) = s_chosen s" "chosen_inv g"
  shows "chosen_inv (forChosen f g)"
  using assms(2) unfolding chosen_inv_def forChosen_fields
  by (simp add: forChosen_flag [of f, OF assms(1)])

lemma key_inv:
  "chosen_inv g \<Longrightarrow> chosen_inv (increaseCharge ops g)"
  "chosen_inv g \<Longrightarrow> chosen_inv (decreaseCharge ops g)"
  "chosen_inv g \<Longrightarrow> chosen_inv (nudgeUp g)"
  "chosen_inv g \<Longrightarrow> chosen_inv (nudgeDown g)"
  "chosen_inv g \<Longrightarrow> chosen_inv (nudgeRight g)"
  "chosen_inv g \<Longrightarrow> chosen_inv (nudgeLeft g)"
  unfolding increaseCharge_def decreaseCharge_def nudgeUp_def nudgeDown_def nudgeRight_def
    nudgeLeft_def
  by (simp_all add: forChosen_inv)

lemma key_fields:
  "sprites (increaseCharge ops g) = sprites g"
  "sprites (decreaseCharge ops g) = sprites g"
  "sprites (nudgeUp g) = sprites g"
  "sprites (nudgeDown g) = sprites g"
  "sprites (nudgeRight g) = sprites g"
  "sprites (nudgeLeft g) = sprites g"
  unfolding increaseCharge_def decreaseCharge_def nudgeUp_def nudgeDown_def nudgeRight_def
    nudgeLeft_def
  by (simp_all add: forChosen_fields)

lemma handleInput_props:
  "sprites (handleInput ops as inp g) = sprites g @ (if keyA inp then [nalloc g] else []) \<and>
   (chosen_inv g \<longrightarrow> chosen_inv (handleInput ops as inp g))"
proof -
  define g1 where "g1 = (if mouseJustPressed inp then pointerDown inp MouseStrokeSource g else g)"
  define g2 where "g2 = fold (\<lambda>i. pointerDown inp (TouchStrokeSource i)) (justPressedTouchIDs inp) g1"
  define g3 where "g3 = (if keyA inp then addSprite ops as inp g2 else g2)"
  define g4 where "g4 = (if keyP inp then increaseCharge ops g3 else g3)"
  define g5 where "g5 = (if keyN inp then decreaseCharge ops g4 else g4)"
  define g6 where "g6 = (if keyUp inp then nudgeUp g5 else g5)"
  define g7 where "g7 = (if keyDown inp then nudgeDown g6 else g6)"
  define g8 where "g8 = (if keyRight inp then nudgeRight g7 else g7)"
  define g9 where "g9 = (if keyLeft inp then nudgeLeft g8 else g8)"
  have h: "handleInput ops as inp g = g9"
    unfolding handleInput_def Let_def g9_def g8_def g7_def g6_def g5_def g4_def g3_def
      g2_def g1_def by (rule refl)
  have s1: "sprites g1 = sprites g" "nalloc g1 = nalloc g"
    by (simp_all add: g1_def pointerDown_fields)
  have s2: "sprites g2 = sprites g" "nalloc g2 = nalloc g"
    by (simp_all add: g2_def fold_pointerDown_fields s1)
  have s3: "sprites g3 = sprites g @ (if keyA inp then [nalloc g] else [])"
    by (simp add: g3_def addSprite_fields s2)
  have s4: "sprites g4 = sprites g3" by (simp add: g4_def key_fields)
  have s5: "sprites g5 = sprites g4" by (simp add: g5_def key_fields)
  have s6: "sprites g6 = sprites g5" by (simp add: g6_def key_fields)
  have s7: "sprites g7 = sprites g6" by (simp add: g7_def key_fields)
  have s8: "sprites g8 = sprites g7" by (simp add: g8_def key_fields)
  have s9: "sprites g9 = sprites g8" by (simp add: g9_def key_fields)
  have i: "chosen_inv g9" if "chosen_inv g"
  proof -
    from that have "chosen_inv g1" by (simp add: g1_def pointerDown_inv)
    then have "chosen_inv g2" by (simp add: g2_def fold_pointerDown_inv)
    then have "chosen_inv g3" by (simp add: g3_def addSprite_inv)
    then have "chosen_inv g4" by (simp add: g4_def key_inv)
    then have "chosen_inv g5" by (simp add: g5_def key_inv)
    then have "chosen_inv g6" by (simp add: g6_def key_inv)
    then have "chosen_inv g7" by (simp add: g7_def key_inv)
    then have "chosen_inv g8" by (simp add: g8_def key_inv)
    then show "chosen_inv g9" by (simp add: g9_def key_inv)
  qed
  show ?thesis
    unfolding h using i by (simp add: s9 s8 s7 s6 s5 s4 s3)
qed

lemma handleInput_sprites:
  "sprites (handleInput ops as inp g) = sprites g @ (if keyA inp then [nalloc g] else [])"
  using handleInput_props [of ops as inp g] by blast

lemma handleInput_inv:
  "chosen_inv g \<Longrightarrow> chosen_inv (handleInput ops as inp g)"
  using handleInput_props [of ops as inp g] by blast

lemma fold_draw_chosen:
  "s_chosen (fold (\<lambda>s st. if s \<in> D then st else st(s := (st s)\<lparr>s_image := h (s_charge (st s))\<rparr>))
               xs st a) = s_chosen (st a)"
  by (induction xs arbitrary: st) simp_all

lemma draw_Inr:
  assumes "draw ops as g = Inr g'"
  shows "sprites g' = sprites g" "strokes g' = strokes g" "nalloc g' = nalloc g"
    "ChosenSprite g' = ChosenSprite g" "s_chosen (store g' a) = s_chosen (store g a)"
  using assms by (auto simp: draw_def fold_draw_chosen split: sum.splits)

lemma draw_inv:
  "draw ops as g = Inr g' \<Longrightarrow> chosen_inv g \<Longrightarrow> chosen_inv g'"
  unfolding chosen_inv_def by (simp add: draw_Inr)

lemma Game_update_Inr:
  assumes "Game_update ops as inp ord g = Inr g'"
  shows "\<exists>g2 kept.
           strokesLoop inp (handleInput ops as inp g) ord = Inr (g2, kept) \<and>
           (if drawingSkipped inp then g' = g2\<lparr>strokes := kept\<rparr>
            else draw ops as (g2\<lparr>strokes := kept\<rparr>) = Inr g')"
  using assms by (auto simp: Game_update_def Let_def split: sum.splits prod.splits if_splits)

lemma Game_update_sprites:
  assumes "Game_update ops as inp ord g = Inr g'"
  shows "mset (sprites g') = mset (sprites g) + (if keyA inp then {#nalloc g#} else {#})"
proof -
  from Game_update_Inr [OF assms] obtain g2 kept where
    l: "strokesLoop inp (handleInput ops as inp g) ord = Inr (g2, kept)" and
    d: "if drawingSkipped inp then g' = g2\<lparr>strokes := kept\<rparr>
        else draw ops as (g2\<lparr>strokes := kept\<rparr>) = Inr g'"
    by blast
  have "sprites g' = sprites g2"
    using d draw_Inr(1) [of ops as "g2\<lparr>strokes := kept\<rparr>" g'] by (auto split: if_splits)
  with strokesLoop_sprites [OF l] show ?thesis
    by (simp add: handleInput_sprites)
qed

lemma Game_update_strokes:
  assumes "Game_update ops as inp ord g = Inr g'"
  shows "strokes g' = filter (\<lambda>s. \<not> released s) (map (Stroke_Update inp) ord)"
proof -
  from Game_update_Inr [OF assms] obtain g2 kept where
    l: "strokesLoop inp (handleInput ops as inp g) ord = Inr (g2, kept)" and
    d: "if drawingSkipped inp then g' = g2\<lparr>strokes := kept\<rparr>
        else draw ops as (g2\<lparr>strokes := kept\<rparr>) = Inr g'"
    by blast
  have "strokes g' = kept"
    using d draw_Inr(2) [of ops as "g2\<lparr>strokes := kept\<rparr>" g'] by (auto split: if_splits)
  with strokesLoop_kept [OF l] show ?thesis by simp
qed

lemma Game_update_inv:
  assumes "Game_update ops as inp ord g = Inr g'" "chosen_inv g"
  shows "chosen_inv g'"
proof -
  from Game_update_Inr [OF assms(1)] obtain g2 kept where
    l: "strokesLoop inp (handleInput ops as inp g) ord = Inr (g2, kept)" and
    d: "if drawingSkipped inp then g' = g2\<lparr>strokes := kept\<rparr>
        else draw ops as (g2\<lparr>strokes := kept\<rparr>) = Inr g'"
    by blast
  from strokesLoop_inv [OF l handleInput_inv [OF assms(2)]] have "chosen_inv g2" .
  then have k: "chosen_inv (g2\<lparr>strokes := kept\<rparr>)" by (simp add: chosen_inv_def)
  show ?thesis
  proof (cases "drawingSkipped inp")
    case True
    with d k show ?thesis by simp
  next
    case False
    with d have "draw ops as (g2\<lparr>strokes := kept\<rparr>) = Inr g'" by simp
    from draw_inv [OF this k] show ?thesis .
  qed
qed

lemma initSprite_Inr_eq:
  assumes "initSprite ops as i r g = Inr g'"
  shows "g' = (alloc \<lparr>s_name = ''Q'' @ Itoa i, s_image = neutralImage as,
                       s_x = fst r, s_y = snd r, s_charge = f_const ops 0,
                       s_chosen = False\<rparr> g)
               \<lparr>sprites := sprites g @ [nalloc g]\<rparr>"
proof (cases "word_sle (screenWidth - fst (Image_Size (neutralImage as))) 0")
  case True
  with assms show ?thesis
    by (simp add: initSprite_def Intn_def split_beta)
next
  case False
  note w = this
  show ?thesis
  proof (cases "word_sle (screenHeight - snd (Image_Size (neutralImage as))) 0")
    case True
    with w assms show ?thesis
      by (simp add: initSprite_def Intn_def split_beta)
  next
    case False
    with w assms show ?thesis
      by (simp add: initSprite_def Intn_def split_beta)
  qed
qed

lemma initSprite_Inr:
  assumes "initSprite ops as i r g = Inr g'"
  shows "sprites g' = sprites g @ [nalloc g]" "nalloc g' = Suc (nalloc g)"
    "ChosenSprite g' = ChosenSprite g" "\<not> s_chosen (store g' (nalloc g))"
    "a \<noteq> nalloc g \<Longrightarrow> store g' a = store g a"
  unfolding initSprite_Inr_eq [OF assms] by (simp_all add: alloc_def)

lemma init_game_inv:
  assumes "init_game ops as r0 r1 = Inr g"
  shows "chosen_inv g"
proof -
  let ?g0 = "\<lparr>store = (\<lambda>_. emptySprite ops as), nalloc = 0, strokes = [],
               sprites = [], ChosenSprite = None\<rparr>"
  from assms obtain g1 where
    a: "initSprite ops as 0 r0 ?g0 = Inr g1" and b: "initSprite ops as 1 r1 g1 = Inr g"
    by (auto simp: init_game_def Let_def split: sum.splits)
  note a' = initSprite_Inr [OF a] and b' = initSprite_Inr [OF b]
  have s: "sprites g = [0, Suc 0]" "nalloc g = Suc (Suc 0)" "ChosenSprite g = None"
    using a'(1-3) b'(1-3) by simp_all
  have c1: "\<not> s_chosen (store g (Suc 0))" using b'(4) a'(2) by simp
  have c0: "\<not> s_chosen (store g 0)" using b'(5) [of 0] a'(2,4) by simp
  show ?thesis
    unfolding chosen_inv_def s using c0 c1 by simp
qed

lemma reachable_inv: "reachable ops as g \<Longrightarrow> chosen_inv g"
proof (induction rule: reachable.induct)
  case (reach_init r0 r1 g)
  then show ?case by (rule init_game_inv)
next
  case (reach_frame g inp ord g')
  from Game_update_inv [OF reach_frame.hyps(3) reach_frame.IH] show ?case .
qed

lemma filter_eq_le1: "distinct xs \<Longrightarrow> length (filter (\<lambda>a. a = c) xs) \<le> Suc 0"
proof (induction xs)
  case Nil
  then show ?case by simp
next
  case (Cons x xs)
  show ?case
  proof (cases "x = c")
    case True
    with Cons.prems have "c \<notin> set xs" by simp
    then have "filter (\<lambda>a. a = c) xs = []" by (auto simp: filter_empty_conv)
    with True show ?thesis by simp
  next
    case False
    with Cons show ?thesis by simp
  qed
qed

subsection \<open>Released strokes leave the set\<close>

lemmas update_defs = Game_update_def handleInput_def pointerDown_def unchooseAll_def
  NewStroke_def Stroke_Position_def Stroke_SetDraggingObject_def Game_spriteAt_def
  Sprite_In_def Game_updateStroke_def Stroke_Update_def Stroke_IsReleased_def
  Stroke_DraggingObject_def Stroke_PositionDiff_def addSprite_def alloc_def draw_def
  chargeImage_def Let_def

lemma init_demo: "init_game realOps demoAssets (10, 10) (30, 30) = Inr demoGame"
  by (simp add: init_game_def initSprite_def demo_defs screen_defs
      Intn_def alloc_def digit_char_def Itoa.simps)

lemma Update_released_id: "released s \<Longrightarrow> Stroke_Update inp s = s"
  by (simp add: Stroke_Update_def)

text \<open>
  Claim C7. Once the released flag of a stroke is set, \<^verbatim>\<open>Stroke.Update\<close> returns
  the stroke unchanged. The stroke loop keeps exactly the updated strokes that are not
  released, in their order, and deletes the others; so after a frame no stroke of the
  set is released.
\<close>

theorem released_stroke_removed:
  "(released s \<longrightarrow> Stroke_Update inp s = s) \<and>
   (strokesLoop inp g ss = Inr (g1, kept) \<longrightarrow>
      kept = filter (\<lambda>s. \<not> released s) (map (Stroke_Update inp) ss)) \<and>
   (Game_update ops as inp ord g = Inr g' \<longrightarrow>
      strokes g' = filter (\<lambda>s. \<not> released s) (map (Stroke_Update inp) ord) \<and>
      (\<forall>s\<in>set (strokes g'). \<not> released s))"
proof -
  have "\<forall>s\<in>set (strokes g'). \<not> released s" if "Game_update ops as inp ord g = Inr g'"
    unfolding Game_update_strokes [OF that] by simp
  then show ?thesis
    using strokesLoop_kept [of inp g ss g1 kept] Game_update_strokes [of ops as inp ord g g']
    by (simp add: Update_released_id)
qed

theorem released_stroke_removed_witness:
  "released ((demoStroke NilInterface)\<lparr>released := True\<rparr>) \<and>
   Stroke_Update releaseInput ((demoStroke NilInterface)\<lparr>released := True\<rparr>)
     = (demoStroke NilInterface)\<lparr>released := True\<rparr> \<and>
   (\<exists>g1. strokesLoop releaseInput draggingGame [touchStroke, demoStroke (SpritePtr (Some 0))]
           = Inr (g1, [touchStroke])) \<and>
   visit_order realOps demoAssets releaseInput
     [touchStroke, demoStroke (SpritePtr (Some 0))] draggingGame \<and>
   (\<exists>g'. Game_update realOps demoAssets releaseInput
            [touchStroke, demoStroke (SpritePtr (Some 0))] draggingGame = Inr g' \<and>
         strokes g' = [touchStroke] \<and> \<not> released touchStroke)"
proof -
  have "\<exists>g1 kept. strokesLoop releaseInput draggingGame
                     [touchStroke, demoStroke (SpritePtr (Some 0))] = Inr (g1, kept)"
    by (simp add: update_defs demo_defs screen_defs Sprite_MoveBy_def)
  then obtain g1 kept where
    l: "strokesLoop releaseInput draggingGame [touchStroke, demoStroke (SpritePtr (Some 0))]
          = Inr (g1, kept)"
    by blast
  have f: "filter (\<lambda>s. \<not> released s)
             (map (Stroke_Update releaseInput) [touchStroke, demoStroke (SpritePtr (Some 0))])
           = [touchStroke]"
    by (simp add: Stroke_Update_def demo_defs)
  have "\<exists>g'. Game_update realOps demoAssets releaseInput
                [touchStroke, demoStroke (SpritePtr (Some 0))] draggingGame = Inr g'"
    by (simp add: update_defs demo_defs screen_defs Sprite_MoveBy_def)
  then obtain g' where
    u: "Game_update realOps demoAssets releaseInput
          [touchStroke, demoStroke (SpritePtr (Some 0))] draggingGame = Inr g'"
    by blast
  have v: "visit_order realOps demoAssets releaseInput
             [touchStroke, demoStroke (SpritePtr (Some 0))] draggingGame"
    by (simp add: visit_order_def handleInput_def demo_defs)
  have r: "released ((demoStroke NilInterface)\<lparr>released := True\<rparr>)"
    by simp
  have n: "\<not> released touchStroke"
    by (simp add: demo_defs)
  note t = released_stroke_removed
         [of "(demoStroke NilInterface)\<lparr>released := True\<rparr>" releaseInput draggingGame
             "[touchStroke, demoStroke (SpritePtr (Some 0))]" g1 kept realOps demoAssets
             "[touchStroke, demoStroke (SpritePtr (Some 0))]" g']
  have a: "Stroke_Update releaseInput ((demoStroke NilInterface)\<lparr>released := True\<rparr>)
             = (demoStroke NilInterface)\<lparr>released := True\<rparr>"
    by (rule mp [OF conjunct1 [OF t] r])
  have "kept = filter (\<lambda>s. \<not> released s)
             (map (Stroke_Update releaseInput) [touchStroke, demoStroke (SpritePtr (Some 0))])"
    by (rule mp [OF conjunct1 [OF conjunct2 [OF t]] l])
  then have b: "kept = [touchStroke]"
    by (simp only: f)
  have "strokes g' = filter (\<lambda>s. \<not> released s)
             (map (Stroke_Update releaseInput) [touchStroke, demoStroke (SpritePtr (Some 0))])"
    by (rule conjunct1 [OF mp [OF conjunct2 [OF conjunct2 [OF t]] u]])
  then have c: "strokes g' = [touchStroke]"
    by (simp only: f)
  from l b have l': "\<exists>g1. strokesLoop releaseInput draggingGame
                       [touchStroke, demoStroke (SpritePtr (Some 0))] = Inr (g1, [touchStroke])"
    by blast
  from u c n have u': "\<exists>g'. Game_update realOps demoAssets releaseInput
            [touchStroke, demoStroke (SpritePtr (Some 0))] draggingGame = Inr g' \<and>
         strokes g' = [touchStroke] \<and> \<not> released touchStroke"
    by blast
  from r a l' v u' show ?thesis
    by (intro conjI)
qed

subsection \<open>Sprites are never removed\<close>

text \<open>
  Claim C6. A frame that \<^verbatim>\<open>update\<close> completes keeps every pointer of the sprite
  list in the list; the list grows by one, the new sprite, when the key \<^verbatim>\<open>A\<close> was
  pressed and keeps its length otherwise. As multisets, the new list is the old one plus
  the new pointer.
\<close>

theorem sprites_never_destroyed:
  assumes "Game_update ops as inp ord g = Inr g'"
  shows "set (sprites g) \<subseteq> set (sprites g') \<and>
         length (sprites g') = length (sprites g) + (if keyA inp then 1 else 0) \<and>
         mset (sprites g') = mset (sprites g) + (if keyA inp then {#nalloc g#} else {#})"
proof -
  note m = Game_update_sprites [OF assms]
  from m have "set_mset (mset (sprites g')) = set_mset (mset (sprites g) + (if keyA inp then {#nalloc g#} else {#}))"
    by simp
  then have s: "set (sprites g) \<subseteq> set (sprites g')" by auto
  from m have "size (mset (sprites g')) = size (mset (sprites g) + (if keyA inp then {#nalloc g#} else {#}))"
    by simp
  then have l: "length (sprites g') = length (sprites g) + (if keyA inp then 1 else 0)" by simp
  from s l m show ?thesis by blast
qed

theorem sprites_never_destroyed_witness:
  "(\<exists>g'. Game_update realOps demoAssets addInput [] demoGame = Inr g' \<and>
          sprites demoGame = [0, Suc 0] \<and> sprites g' = [0, Suc 0, 2] \<and>
          set (sprites demoGame) \<subseteq> set (sprites g') \<and>
          length (sprites g') = length (sprites demoGame) + 1) \<and>
   (\<exists>g'. Game_update realOps demoAssets releaseInput
            [touchStroke, demoStroke (SpritePtr (Some 0))] draggingGame = Inr g' \<and>
          sprites draggingGame = [0, Suc 0] \<and> sprites g' = [Suc 0, 0] \<and>
          set (sprites draggingGame) \<subseteq> set (sprites g') \<and>
          length (sprites g') = length (sprites draggingGame))"
proof -
  have "\<exists>g'. Game_update realOps demoAssets addInput [] demoGame = Inr g' \<and>
          sprites g' = [0, Suc 0, 2]"
    by (simp add: update_defs demo_defs)
  then obtain g' where
    u: "Game_update realOps demoAssets addInput [] demoGame = Inr g'" and
    p: "sprites g' = [0, Suc 0, 2]"
    by blast
  have k: "keyA addInput" "sprites demoGame = [0, Suc 0]" by (simp_all add: demo_defs)
  from sprites_never_destroyed [OF u] u p k have a:
    "\<exists>g'. Game_update realOps demoAssets addInput [] demoGame = Inr g' \<and>
          sprites demoGame = [0, Suc 0] \<and> sprites g' = [0, Suc 0, 2] \<and>
          set (sprites demoGame) \<subseteq> set (sprites g') \<and>
          length (sprites g') = length (sprites demoGame) + 1"
    by auto
  have "\<exists>g'. Game_update realOps demoAssets releaseInput
            [touchStroke, demoStroke (SpritePtr (Some 0))] draggingGame = Inr g' \<and>
          sprites g' = [Suc 0, 0]"
    by (simp add: update_defs demo_defs screen_defs Sprite_MoveBy_def)
  then obtain g2 where
    u2: "Game_update realOps demoAssets releaseInput
            [touchStroke, demoStroke (SpritePtr (Some 0))] draggingGame = Inr g2" and
    p2: "sprites g2 = [Suc 0, 0]"
    by blast
  have k2: "\<not> keyA releaseInput" "sprites draggingGame = [0, Suc 0]"
    by (simp_all add: demo_defs)
  from sprites_never_destroyed [OF u2] u2 p2 k2 have b:
    "\<exists>g'. Game_update realOps demoAssets releaseInput
            [touchStroke, demoStroke (SpritePtr (Some 0))] draggingGame = Inr g' \<and>
          sprites draggingGame = [0, Suc 0] \<and> sprites g' = [Suc 0, 0] \<and>
          set (sprites draggingGame) \<subseteq> set (sprites g') \<and>
          length (sprites g') = length (sprites draggingGame)"
    by auto
  from a b show ?thesis by blast
qed

subsection \<open>At most one chosen sprite\<close>

text \<open>
  Claim C4. In every state reached from \<^verbatim>\<open>init\<close> by frames of \<^verbatim>\<open>update\<close>, at
  most one position of the sprite list holds a sprite flagged chosen; a sprite of the
  list is flagged chosen exactly when \<^verbatim>\<open>ChosenSprite\<close> points to it; a non-nil
  \<^verbatim>\<open>ChosenSprite\<close> is a chosen sprite of the list, and when it is nil no sprite
  of the list is chosen.
\<close>

theorem chosen_at_most_one:
  assumes "reachable ops as g"
  shows "length (filter (\<lambda>a. s_chosen (store g a)) (sprites g)) \<le> 1 \<and>
         (\<forall>a\<in>set (sprites g). s_chosen (store g a) \<longleftrightarrow> ChosenSprite g = Some a) \<and>
         (\<forall>a. ChosenSprite g = Some a \<longrightarrow> a \<in> set (sprites g) \<and> s_chosen (store g a)) \<and>
         (ChosenSprite g = None \<longrightarrow> (\<forall>a\<in>set (sprites g). \<not> s_chosen (store g a)))"
proof -
  from reachable_inv [OF assms] have
    d: "distinct (sprites g)" and
    c: "\<forall>a\<in>set (sprites g). s_chosen (store g a) \<longleftrightarrow> ChosenSprite g = Some a" and
    m: "\<forall>a. ChosenSprite g = Some a \<longrightarrow> a \<in> set (sprites g)"
    by (simp_all add: chosen_inv_def)
  have f: "filter (\<lambda>a. s_chosen (store g a)) (sprites g)
             = filter (\<lambda>a. ChosenSprite g = Some a) (sprites g)"
    using c by (intro filter_cong) simp_all
  have "length (filter (\<lambda>a. ChosenSprite g = Some a) (sprites g)) \<le> Suc 0"
  proof (cases "ChosenSprite g")
    case None
    then show ?thesis by simp
  next
    case (Some b)
    have "filter (\<lambda>a. ChosenSprite g = Some a) (sprites g) = filter (\<lambda>a. a = b) (sprites g)"
      using Some by (intro filter_cong) auto
    with filter_eq_le1 [OF d, of b] show ?thesis by simp
  qed
  with f have l: "length (filter (\<lambda>a. s_chosen (store g a)) (sprites g)) \<le> 1" by simp
  from c m have m': "\<forall>a. ChosenSprite g = Some a \<longrightarrow> a \<in> set (sprites g) \<and> s_chosen (store g a)"
    by blast
  from c have n: "ChosenSprite g = None \<longrightarrow> (\<forall>a\<in>set (sprites g). \<not> s_chosen (store g a))"
    by simp
  from l c m' n show ?thesis by blast
qed

theorem chosen_at_most_one_witness:
  "\<exists>g'. Game_update realOps demoAssets pressInput [pressedStroke] demoGame = Inr g' \<and>
         reachable realOps demoAssets g' \<and>
         ChosenSprite g' = Some 0 \<and>
         s_chosen (store g' 0) \<and> \<not> s_chosen (store g' (Suc 0)) \<and>
         length (filter (\<lambda>a. s_chosen (store g' a)) (sprites g')) \<le> 1"
proof -
  have r0: "reachable realOps demoAssets demoGame"
    by (rule reach_init [OF init_demo])
  have v: "visit_order realOps demoAssets pressInput [pressedStroke] demoGame"
    by (simp add: visit_order_def update_defs demo_defs)
  have "\<exists>g'. Game_update realOps demoAssets pressInput [pressedStroke] demoGame = Inr g' \<and>
          ChosenSprite g' = Some 0 \<and> s_chosen (store g' 0) \<and> \<not> s_chosen (store g' (Suc 0))"
    by (simp add: update_defs demo_defs)
  then obtain g' where
    u: "Game_update realOps demoAssets pressInput [pressedStroke] demoGame = Inr g'" and
    p: "ChosenSprite g' = Some 0" "s_chosen (store g' 0)" "\<not> s_chosen (store g' (Suc 0))"
    by blast
  have r: "reachable realOps demoAssets g'"
    by (rule reach_frame [OF r0 v u])
  from chosen_at_most_one [OF r] u r p show ?thesis by blast
qed

subsection \<open>Frames of reachable states complete\<close>

text \<open>
  None of the panics of the model occurs in a frame that starts from a reachable state,
  whatever the input and the order in which the strokes are visited.
\<close>

lemma stroke_ok_mono: "stroke_ok xs s \<Longrightarrow> set xs \<subseteq> set ys \<Longrightarrow> stroke_ok ys s"
  by (auto simp: stroke_ok_def split: DragObject.splits option.splits)

lemma Update_draggingObject: "draggingObject (Stroke_Update inp s) = draggingObject s"
  by (simp add: Stroke_Update_def split_beta)

lemma Update_ok:
  "stroke_ok xs s \<Longrightarrow> \<not> released (Stroke_Update inp s) \<Longrightarrow> stroke_ok xs (Stroke_Update inp s)"
  by (simp add: stroke_ok_def Update_draggingObject)

lemma updateStroke_completes:
  assumes "stroke_ok (sprites g) s"
  shows "\<exists>g' s'. Game_updateStroke inp g s = Inr (g', s')"
proof (cases "released (Stroke_Update inp s)")
  case False
  then show ?thesis
    by (simp add: Game_updateStroke_def Stroke_IsReleased_def)
next
  case True
  then have rel: "Stroke_IsReleased (Stroke_Update inp s)"
    by (simp add: Stroke_IsReleased_def)
  show ?thesis
  proof (cases "draggingObject s")
    case NilInterface
    with assms show ?thesis by (simp add: stroke_ok_def)
  next
    case (SpritePtr p)
    show ?thesis
    proof (cases p)
      case None
      with SpritePtr have "Stroke_DraggingObject s = SpritePtr None"
        by (simp add: Stroke_DraggingObject_def)
      from updateStroke_no_sprite [OF rel this] show ?thesis by blast
    next
      case (Some a)
      with SpritePtr have obj: "Stroke_DraggingObject s = SpritePtr (Some a)"
        by (simp add: Stroke_DraggingObject_def)
      from assms SpritePtr Some have mem: "a \<in> set (sprites g)"
        by (simp add: stroke_ok_def)
      from updateStroke_attached [OF rel obj mem] show ?thesis by blast
    qed
  qed
qed

lemma strokesLoop_completes:
  "\<forall>s\<in>set ss. stroke_ok (sprites g) s \<Longrightarrow> \<exists>g' kept. strokesLoop inp g ss = Inr (g', kept)"
proof (induction ss arbitrary: g)
  case Nil
  then show ?case by simp
next
  case (Cons s ss)
  from Cons.prems have "stroke_ok (sprites g) s" by simp
  from updateStroke_completes [OF this] obtain g1 s1 where
    u: "Game_updateStroke inp g s = Inr (g1, s1)" by blast
  from updateStroke_sprites [OF u] have "set (sprites g1) = set (sprites g)"
    by (rule mset_eq_setD)
  with Cons.prems have "\<forall>s\<in>set ss. stroke_ok (sprites g1) s"
    by (auto intro: stroke_ok_mono)
  from Cons.IH [OF this] obtain g2 kept where "strokesLoop inp g1 ss = Inr (g2, kept)"
    by blast
  with u show ?case by simp
qed

lemma draggingSprites_completes:
  "\<forall>s\<in>set ss. stroke_ok xs s \<Longrightarrow> \<exists>ds. draggingSprites ss = Inr ds"
proof (induction ss)
  case Nil
  then show ?case by simp
next
  case (Cons s ss)
  then obtain ds where "draggingSprites ss = Inr ds" by auto
  with Cons.prems show ?case
    by (auto simp: stroke_ok_def Stroke_DraggingObject_def split: DragObject.splits option.splits)
qed

lemma draw_completes:
  "strokes_inv g \<Longrightarrow> \<exists>g'. draw ops as g = Inr g'"
  using draggingSprites_completes [of "strokes g" "sprites g"]
  by (auto simp: strokes_inv_def draw_def)

lemma pointerDown_strokes:
  "strokes (pointerDown inp src g)
     = (Stroke_SetDraggingObject
          (SpritePtr (Game_spriteAt g (Stroke_Position (NewStroke inp src))))
          (NewStroke inp src)) # strokes g"
  by (simp add: pointerDown_def Let_def unchooseAll_def split: option.splits)

lemma pointerDown_strokes_inv:
  assumes "strokes_inv g"
  shows "strokes_inv (pointerDown inp src g)"
proof -
  have "stroke_ok (sprites g)
          (Stroke_SetDraggingObject
             (SpritePtr (Game_spriteAt g (Stroke_Position (NewStroke inp src))))
             (NewStroke inp src))"
    using spriteAt_in_list [of g "Stroke_Position (NewStroke inp src)"]
    by (auto simp: stroke_ok_def Stroke_SetDraggingObject_def NewStroke_def split_beta
          split: option.splits)
  with assms show ?thesis
    by (simp add: strokes_inv_def pointerDown_strokes pointerDown_fields)
qed

lemma fold_pointerDown_strokes_inv:
  "strokes_inv g \<Longrightarrow> strokes_inv (fold (\<lambda>i. pointerDown inp (TouchStrokeSource i)) ids g)"
  by (induction ids arbitrary: g) (simp_all add: pointerDown_strokes_inv)

lemma addSprite_strokes_inv:
  "strokes_inv g \<Longrightarrow> strokes_inv (addSprite ops as inp g)"
  unfolding strokes_inv_def addSprite_fields
  by (auto simp: addSprite_def alloc_def Let_def intro: stroke_ok_mono)

lemma forChosen_strokes_inv:
  "strokes_inv g \<Longrightarrow> strokes_inv (forChosen f g)"
  by (simp add: strokes_inv_def forChosen_fields)

lemma key_strokes_inv:
  "strokes_inv g \<Longrightarrow> strokes_inv (increaseCharge ops g)"
  "strokes_inv g \<Longrightarrow> strokes_inv (decreaseCharge ops g)"
  "strokes_inv g \<Longrightarrow> strokes_inv (nudgeUp g)"
  "strokes_inv g \<Longrightarrow> strokes_inv (nudgeDown g)"
  "strokes_inv g \<Longrightarrow> strokes_inv (nudgeRight g)"
  "strokes_inv g \<Longrightarrow> strokes_inv (nudgeLeft g)"
  unfolding increaseCharge_def decreaseCharge_def nudgeUp_def nudgeDown_def nudgeRight_def
    nudgeLeft_def
  by (simp_all add: forChosen_strokes_inv)

lemma handleInput_strokes_inv:
  assumes "strokes_inv g"
  shows "strokes_inv (handleInput ops as inp g)"
proof -
  define g1 where "g1 = (if mouseJustPressed inp then pointerDown inp MouseStrokeSource g else g)"
  define g2 where "g2 = fold (\<lambda>i. pointerDown inp (TouchStrokeSource i)) (justPressedTouchIDs inp) g1"
  define g3 where "g3 = (if keyA inp then addSprite ops as inp g2 else g2)"
  define g4 where "g4 = (if keyP inp then increaseCharge ops g3 else g3)"
  define g5 where "g5 = (if keyN inp then decreaseCharge ops g4 else g4)"
  define g6 where "g6 = (if keyUp inp then nudgeUp g5 else g5)"
  define g7 where "g7 = (if keyDown inp then nudgeDown g6 else g6)"
  define g8 where "g8 = (if keyRight inp then nudgeRight g7 else g7)"
  define g9 where "g9 = (if keyLeft inp then nudgeLeft g8 else g8)"
  have h: "handleInput ops as inp g = g9"
    unfolding handleInput_def Let_def g9_def g8_def g7_def g6_def g5_def g4_def g3_def
      g2_def g1_def by (rule refl)
  from assms have "strokes_inv g1" by (simp add: g1_def pointerDown_strokes_inv)
  then have "strokes_inv g2" by (simp add: g2_def fold_pointerDown_strokes_inv)
  then have "strokes_inv g3" by (simp add: g3_def addSprite_strokes_inv)
  then have "strokes_inv g4" by (simp add: g4_def key_strokes_inv)
  then have "strokes_inv g5" by (simp add: g5_def key_strokes_inv)
  then have "strokes_inv g6" by (simp add: g6_def key_strokes_inv)
  then have "strokes_inv g7" by (simp add: g7_def key_strokes_inv)
  then have "strokes_inv g8" by (simp add: g8_def key_strokes_inv)
  then have "strokes_inv g9" by (simp add: g9_def key_strokes_inv)
  with h show ?thesis by simp
qed

lemma strokesLoop_strokes_inv:
  assumes l: "strokesLoop inp g ord = Inr (g', kept)"
      and i: "\<forall>s\<in>set ord. stroke_ok (sprites g) s"
  shows "strokes_inv (g'\<lparr>strokes := kept\<rparr>)"
proof -
  from strokesLoop_sprites [OF l] have e: "set (sprites g') = set (sprites g)"
    by (rule mset_eq_setD)
  have "stroke_ok (sprites g') s" if "s \<in> set kept" for s
  proof -
    from that strokesLoop_kept [OF l] obtain s0 where
      s0: "s0 \<in> set ord" "s = Stroke_Update inp s0" "\<not> released s"
      by auto
    from i s0(1) have "stroke_ok (sprites g) s0" by simp
    from Update_ok [OF this] s0(2,3) have "stroke_ok (sprites g) s" by simp
    with e show ?thesis by (auto intro: stroke_ok_mono)
  qed
  then show ?thesis by (simp add: strokes_inv_def)
qed

lemma Game_update_completes:
  assumes "strokes_inv g" and "visit_order ops as inp ord g"
  shows "\<exists>g'. Game_update ops as inp ord g = Inr g' \<and> strokes_inv g'"
proof -
  let ?h = "handleInput ops as inp g"
  from assms(2) have "set ord = set (strokes ?h)"
    unfolding visit_order_def by (rule mset_eq_setD)
  with handleInput_strokes_inv [OF assms(1), of ops as inp]
  have hi: "\<forall>s\<in>set ord. stroke_ok (sprites ?h) s" by (simp add: strokes_inv_def)
  from strokesLoop_completes [OF this] obtain g2 kept where
    l: "strokesLoop inp ?h ord = Inr (g2, kept)" by blast
  from strokesLoop_strokes_inv [OF l hi] have k: "strokes_inv (g2\<lparr>strokes := kept\<rparr>)" .
  show ?thesis
  proof (cases "drawingSkipped inp")
    case True
    with l k show ?thesis by (simp add: Game_update_def Let_def)
  next
    case False
    from draw_completes [OF k] obtain g' where d: "draw ops as (g2\<lparr>strokes := kept\<rparr>) = Inr g'"
      by blast
    from draw_Inr(1,2) [OF d] k have "strokes_inv g'" by (simp add: strokes_inv_def)
    with False l d show ?thesis by (simp add: Game_update_def Let_def)
  qed
qed

lemma init_game_strokes: "init_game ops as r0 r1 = Inr g \<Longrightarrow> strokes g = []"
proof -
  assume a: "init_game ops as r0 r1 = Inr g"
  let ?g0 = "\<lparr>store = (\<lambda>_. emptySprite ops as), nalloc = 0, strokes = [],
               sprites = [], ChosenSprite = None\<rparr>"
  from a obtain g1 where
    x: "initSprite ops as 0 r0 ?g0 = Inr g1" and y: "initSprite ops as 1 r1 g1 = Inr g"
    by (auto simp: init_game_def Let_def split: sum.splits)
  show ?thesis
    unfolding initSprite_Inr_eq [OF y] initSprite_Inr_eq [OF x] by (simp add: alloc_def)
qed

lemma reachable_strokes_inv: "reachable ops as g \<Longrightarrow> strokes_inv g"
proof (induction rule: reachable.induct)
  case (reach_init r0 r1 g)
  then show ?case by (simp add: strokes_inv_def init_game_strokes)
next
  case (reach_frame g inp ord g')
  from Game_update_completes [OF reach_frame.IH reach_frame.hyps(2)] reach_frame.hyps(3)
  show ?case by simp
qed

lemma reachable_update_completes:
  assumes "reachable ops as g" and "visit_order ops as inp ord g"
  shows "\<exists>g'. Game_update ops as inp ord g = Inr g' \<and> reachable ops as g'"
proof -
  from Game_update_completes [OF reachable_strokes_inv [OF assms(1)] assms(2)]
  obtain g' where u: "Game_update ops as inp ord g = Inr g'" by blast
  from reach_frame [OF assms u] u show ?thesis by blast
qed

subsection \<open>The arrow keys over a frame\<close>

lemma fold_chosen_keeps:
  "(\<And>s. h (f s) = h s) \<Longrightarrow>
     h (fold (\<lambda>s st. if s_chosen (st s) then st(s := f (st s)) else st) xs st a) = h (st a)"
  by (induction xs arbitrary: st) auto

lemma forChosen_keeps:
  "(\<And>s. h (f s) = h s) \<Longrightarrow> h (store (forChosen f g) a) = h (store g a)"
  by (simp add: forChosen_def fold_chosen_keeps [of h f])

lemma charge_keys_position:
  "s_x (store (increaseCharge ops g) a) = s_x (store g a)"
  "s_y (store (increaseCharge ops g) a) = s_y (store g a)"
  "s_x (store (decreaseCharge ops g) a) = s_x (store g a)"
  "s_y (store (decreaseCharge ops g) a) = s_y (store g a)"
  unfolding increaseCharge_def decreaseCharge_def
  by (simp_all add: forChosen_keeps [of s_x] forChosen_keeps [of s_y])

lemma key_ChosenSprite:
  "ChosenSprite (increaseCharge ops g) = ChosenSprite g"
  "ChosenSprite (decreaseCharge ops g) = ChosenSprite g"
  "ChosenSprite (nudgeUp g) = ChosenSprite g"
  "ChosenSprite (nudgeDown g) = ChosenSprite g"
  "ChosenSprite (nudgeRight g) = ChosenSprite g"
  "ChosenSprite (nudgeLeft g) = ChosenSprite g"
  unfolding increaseCharge_def decreaseCharge_def nudgeUp_def nudgeDown_def nudgeRight_def
    nudgeLeft_def
  by (simp_all add: forChosen_fields)

lemma pointerDown_position:
  "s_x (store (pointerDown inp src g) a) = s_x (store g a) \<and>
   s_y (store (pointerDown inp src g) a) = s_y (store g a)"
  by (simp add: pointerDown_def Let_def unchooseAll_store unchooseAll_fields
      split: option.splits)

lemma fold_pointerDown_position:
  "s_x (store (fold (\<lambda>i. pointerDown inp (TouchStrokeSource i)) ids g) a) = s_x (store g a) \<and>
   s_y (store (fold (\<lambda>i. pointerDown inp (TouchStrokeSource i)) ids g) a) = s_y (store g a)"
  by (induction ids arbitrary: g) (simp_all add: pointerDown_position)

text \<open>The sprite that \<^verbatim>\<open>ChosenSprite\<close> points to, in a state with the invariant.\<close>

lemma chosen_inv_Some:
  assumes "chosen_inv g" "ChosenSprite g = Some a"
  shows "distinct (sprites g)" "a \<in> set (sprites g)" "s_chosen (store g a)" "a < nalloc g"
  using assms by (auto simp: chosen_inv_def)

lemma chosen_nudge:
  assumes "chosen_inv g" "ChosenSprite g = Some a"
  shows "store (nudgeUp g) a = (store g a)\<lparr>s_y := s_y (store g a) - 54\<rparr>"
    "store (nudgeDown g) a = (store g a)\<lparr>s_y := s_y (store g a) + 54\<rparr>"
    "store (nudgeRight g) a = (store g a)\<lparr>s_x := s_x (store g a) + 80\<rparr>"
    "store (nudgeLeft g) a = (store g a)\<lparr>s_x := s_x (store g a) - 80\<rparr>"
  unfolding nudgeUp_def nudgeDown_def nudgeRight_def nudgeLeft_def
  using chosen_inv_Some [OF assms] by (simp_all add: forChosen_hit)

lemma handleInput_nudges:
  assumes i: "chosen_inv g" and c: "ChosenSprite (handleInput ops as inp g) = Some a"
  shows "s_x (store (handleInput ops as inp g) a)
           = s_x (store g a) + (if keyRight inp then 80 else 0) - (if keyLeft inp then 80 else 0)"
    and "s_y (store (handleInput ops as inp g) a)
           = s_y (store g a) - (if keyUp inp then 54 else 0) + (if keyDown inp then 54 else 0)"
proof -
  define g1 where "g1 = (if mouseJustPressed inp then pointerDown inp MouseStrokeSource g else g)"
  define g2 where "g2 = fold (\<lambda>i. pointerDown inp (TouchStrokeSource i)) (justPressedTouchIDs inp) g1"
  define g3 where "g3 = (if keyA inp then addSprite ops as inp g2 else g2)"
  define g4 where "g4 = (if keyP inp then increaseCharge ops g3 else g3)"
  define g5 where "g5 = (if keyN inp then decreaseCharge ops g4 else g4)"
  define g6 where "g6 = (if keyUp inp then nudgeUp g5 else g5)"
  define g7 where "g7 = (if keyDown inp then nudgeDown g6 else g6)"
  define g8 where "g8 = (if keyRight inp then nudgeRight g7 else g7)"
  define g9 where "g9 = (if keyLeft inp then nudgeLeft g8 else g8)"
  have h: "handleInput ops as inp g = g9"
    unfolding handleInput_def Let_def g9_def g8_def g7_def g6_def g5_def g4_def g3_def
      g2_def g1_def by (rule refl)
  from i have i1: "chosen_inv g1" by (simp add: g1_def pointerDown_inv)
  then have i2: "chosen_inv g2" by (simp add: g2_def fold_pointerDown_inv)
  then have i3: "chosen_inv g3" by (simp add: g3_def addSprite_inv)
  then have i4: "chosen_inv g4" by (simp add: g4_def key_inv)
  then have i5: "chosen_inv g5" by (simp add: g5_def key_inv)
  then have i6: "chosen_inv g6" by (simp add: g6_def key_inv)
  then have i7: "chosen_inv g7" by (simp add: g7_def key_inv)
  then have i8: "chosen_inv g8" by (simp add: g8_def key_inv)
  have c9: "ChosenSprite g9 = Some a" using c h by simp
  then have c8: "ChosenSprite g8 = Some a" by (simp add: g9_def key_ChosenSprite split: if_splits)
  then have c7: "ChosenSprite g7 = Some a" by (simp add: g8_def key_ChosenSprite split: if_splits)
  then have c6: "ChosenSprite g6 = Some a" by (simp add: g7_def key_ChosenSprite split: if_splits)
  then have c5: "ChosenSprite g5 = Some a" by (simp add: g6_def key_ChosenSprite split: if_splits)
  then have c4: "ChosenSprite g4 = Some a" by (simp add: g5_def key_ChosenSprite split: if_splits)
  then have c3: "ChosenSprite g3 = Some a" by (simp add: g4_def key_ChosenSprite split: if_splits)
  then have c2: "ChosenSprite g2 = Some a" by (simp add: g3_def addSprite_fields split: if_splits)
  have p1: "s_x (store g1 a) = s_x (store g a)" "s_y (store g1 a) = s_y (store g a)"
    by (simp_all add: g1_def pointerDown_position)
  have p2: "s_x (store g2 a) = s_x (store g1 a)" "s_y (store g2 a) = s_y (store g1 a)"
    by (simp_all add: g2_def fold_pointerDown_position)
  from chosen_inv_Some(4) [OF i2 c2] have "a \<noteq> nalloc g2" by simp
  then have p3: "s_x (store g3 a) = s_x (store g2 a)" "s_y (store g3 a) = s_y (store g2 a)"
    by (simp_all add: g3_def addSprite_store)
  have p4: "s_x (store g4 a) = s_x (store g3 a)" "s_y (store g4 a) = s_y (store g3 a)"
    by (simp_all add: g4_def charge_keys_position)
  have p5: "s_x (store g5 a) = s_x (store g4 a)" "s_y (store g5 a) = s_y (store g4 a)"
    by (simp_all add: g5_def charge_keys_position)
  have p6: "s_x (store g6 a) = s_x (store g5 a)"
    "s_y (store g6 a) = s_y (store g5 a) - (if keyUp inp then 54 else 0)"
    by (simp_all add: g6_def chosen_nudge [OF i5 c5])
  have p7: "s_x (store g7 a) = s_x (store g6 a)"
    "s_y (store g7 a) = s_y (store g6 a) + (if keyDown inp then 54 else 0)"
    by (simp_all add: g7_def chosen_nudge [OF i6 c6])
  have p8: "s_x (store g8 a) = s_x (store g7 a) + (if keyRight inp then 80 else 0)"
    "s_y (store g8 a) = s_y (store g7 a)"
    by (simp_all add: g8_def chosen_nudge [OF i7 c7])
  have p9: "s_x (store g9 a) = s_x (store g8 a) - (if keyLeft inp then 80 else 0)"
    "s_y (store g9 a) = s_y (store g8 a)"
    by (simp_all add: g9_def chosen_nudge [OF i8 c8])
  show "s_x (store (handleInput ops as inp g) a)
           = s_x (store g a) + (if keyRight inp then 80 else 0) - (if keyLeft inp then 80 else 0)"
    unfolding h p9 p8 p7 p6 p5 p4 p3 p2 p1 by (rule refl)
  show "s_y (store (handleInput ops as inp g) a)
           = s_y (store g a) - (if keyUp inp then 54 else 0) + (if keyDown inp then 54 else 0)"
    unfolding h p9 p8 p7 p6 p5 p4 p3 p2 p1 by (rule refl)
qed

lemma updateStroke_ChosenSprite:
  "Game_updateStroke inp g s = Inr (g', s') \<Longrightarrow> ChosenSprite g' = ChosenSprite g"
  by (drule updateStroke_Inr) auto

lemma updateStroke_store_other:
  assumes "Game_updateStroke inp g s = Inr (g', s')"
      and "draggingObject s = SpritePtr (Some a) \<longrightarrow> \<not> released (Stroke_Update inp s)"
  shows "store g' a = store g a"
  using updateStroke_Inr [OF assms(1)] assms(2)
  by (auto simp: Update_draggingObject)

lemma strokesLoop_ChosenSprite:
  "strokesLoop inp g ss = Inr (g', kept) \<Longrightarrow> ChosenSprite g' = ChosenSprite g"
proof (induction ss arbitrary: g g' kept)
  case Nil
  then show ?case by simp
next
  case (Cons s ss)
  from Cons.prems obtain g1 s1 g2 kept2 where
    u: "Game_updateStroke inp g s = Inr (g1, s1)" and
    l: "strokesLoop inp g1 ss = Inr (g2, kept2)" and
    k: "g' = g2"
    by (auto split: sum.splits prod.splits)
  from Cons.IH [OF l] updateStroke_ChosenSprite [OF u] k show ?case by simp
qed

lemma strokesLoop_store_other:
  "strokesLoop inp g ss = Inr (g', kept) \<Longrightarrow>
   \<forall>s\<in>set ss. draggingObject s = SpritePtr (Some a) \<longrightarrow> \<not> released (Stroke_Update inp s) \<Longrightarrow>
   store g' a = store g a"
proof (induction ss arbitrary: g g' kept)
  case Nil
  then show ?case by simp
next
  case (Cons s ss)
  from Cons.prems(1) obtain g1 s1 g2 kept2 where
    u: "Game_updateStroke inp g s = Inr (g1, s1)" and
    l: "strokesLoop inp g1 ss = Inr (g2, kept2)" and
    k: "g' = g2"
    by (auto split: sum.splits prod.splits)
  from Cons.prems(2) have
    a: "draggingObject s = SpritePtr (Some a) \<longrightarrow> \<not> released (Stroke_Update inp s)" and
    b: "\<forall>s\<in>set ss. draggingObject s = SpritePtr (Some a) \<longrightarrow> \<not> released (Stroke_Update inp s)"
    by simp_all
  from Cons.IH [OF l b] updateStroke_store_other [OF u a] k show ?case by simp
qed

lemma fold_draw_keeps:
  "(\<And>s i. h (s\<lparr>s_image := i\<rparr>) = h s) \<Longrightarrow>
   h (fold (\<lambda>s st. if s \<in> D then st else st(s := (st s)\<lparr>s_image := c (s_charge (st s))\<rparr>))
        xs st a) = h (st a)"
  by (induction xs arbitrary: st) simp_all

lemma draw_position:
  assumes "draw ops as g = Inr g'"
  shows "s_x (store g' a) = s_x (store g a)" "s_y (store g' a) = s_y (store g a)"
  using assms
  by (auto simp: draw_def fold_draw_keeps [of s_x] fold_draw_keeps [of s_y] split: sum.splits)

lemma Game_update_nudges:
  assumes i: "chosen_inv g"
      and u: "Game_update ops as inp ord g = Inr g'"
      and c: "ChosenSprite g' = Some a"
      and n: "\<forall>s\<in>set ord. draggingObject s = SpritePtr (Some a) \<longrightarrow>
                \<not> released (Stroke_Update inp s)"
  shows "s_x (store g' a)
           = s_x (store g a) + (if keyRight inp then 80 else 0) - (if keyLeft inp then 80 else 0)"
    and "s_y (store g' a)
           = s_y (store g a) - (if keyUp inp then 54 else 0) + (if keyDown inp then 54 else 0)"
proof -
  let ?h = "handleInput ops as inp g"
  from Game_update_Inr [OF u] obtain g2 kept where
    l: "strokesLoop inp ?h ord = Inr (g2, kept)" and
    d: "if drawingSkipped inp then g' = g2\<lparr>strokes := kept\<rparr>
        else draw ops as (g2\<lparr>strokes := kept\<rparr>) = Inr g'"
    by blast
  have e: "ChosenSprite g' = ChosenSprite g2 \<and> s_x (store g' a) = s_x (store g2 a) \<and>
           s_y (store g' a) = s_y (store g2 a)"
  proof (cases "drawingSkipped inp")
    case True
    with d show ?thesis by simp
  next
    case False
    with d have w: "draw ops as (g2\<lparr>strokes := kept\<rparr>) = Inr g'" by simp
    from draw_Inr(4) [OF w] draw_position [OF w, of a] show ?thesis by simp
  qed
  with c strokesLoop_ChosenSprite [OF l] have ch: "ChosenSprite ?h = Some a" by simp
  from strokesLoop_store_other [OF l n] have s: "store g2 a = store ?h a" .
  show "s_x (store g' a)
           = s_x (store g a) + (if keyRight inp then 80 else 0) - (if keyLeft inp then 80 else 0)"
    using e s handleInput_nudges(1) [OF i ch] by simp
  show "s_y (store g' a)
           = s_y (store g a) - (if keyUp inp then 54 else 0) + (if keyDown inp then 54 else 0)"
    using e s handleInput_nudges(2) [OF i ch] by simp
qed

lemma held_reached:
  "Game_update realOps demoAssets pressInput [pressedStroke] demoGame = Inr heldGame"
  by (simp add: update_defs demo_defs fun_eq_iff)

lemma held_inv: "chosen_inv heldGame"
  by (simp add: chosen_inv_def demo_defs)

lemma Game_update_nudges_edge:
  assumes x: "s_x (store g' a)
           = s_x (store g a) + (if keyRight inp then 80 else 0) - (if keyLeft inp then 80 else 0)"
      and y: "s_y (store g' a)
           = s_y (store g a) - (if keyUp inp then 54 else 0) + (if keyDown inp then 54 else 0)"
  shows "keyLeft inp \<and> \<not> keyRight inp \<and>
           word_sle 0 (s_x (store g a)) \<and> word_sless (s_x (store g a)) 80 \<longrightarrow>
           word_sless (s_x (store g' a)) 0"
    and "keyUp inp \<and> \<not> keyDown inp \<and>
           word_sle 0 (s_y (store g a)) \<and> word_sless (s_y (store g a)) 54 \<longrightarrow>
           word_sless (s_y (store g' a)) 0"
    and "keyRight inp \<and> \<not> keyLeft inp \<and>
           word_sless 720 (s_x (store g a)) \<and> word_sle (s_x (store g a)) screenWidth \<longrightarrow>
           word_sless screenWidth (s_x (store g' a))"
    and "keyDown inp \<and> \<not> keyUp inp \<and>
           word_sless 486 (s_y (store g a)) \<and> word_sle (s_y (store g a)) screenHeight \<longrightarrow>
           word_sless screenHeight (s_y (store g' a))"
  unfolding x y
  by (simp_all add: nudge_arith screenWidth_def fullScreenWidth_def screenHeight_def)

text \<open>
  Claim C10, as amended. Each arrow-key loop changes the \<open>y\<close> of a chosen sprite by
  exactly \<open>\<mp>54\<close> (\<^verbatim>\<open>screenHeight / 10\<close>) or its \<open>x\<close> by exactly \<open>\<plusminus>80\<close>
  (\<^verbatim>\<open>screenWidth / 10\<close>) and nothing else: no clamp follows, so a sprite less than
  one step from an edge ends at a negative coordinate or beyond \<^verbatim>\<open>screenWidth\<close> or
  \<^verbatim>\<open>screenHeight\<close>, outside the range that \<^verbatim>\<open>MoveBy\<close> keeps. Over a whole frame
  that starts in a state with the invariant of the chosen flag (as every reachable state
  has), the sprite chosen in that frame has, at the end of the frame, its \<open>x\<close> changed
  by \<open>+80\<close> for \<^verbatim>\<open>Right\<close> and \<open>-80\<close> for \<^verbatim>\<open>Left\<close> and its \<open>y\<close> by \<open>-54\<close> for
  \<^verbatim>\<open>Up\<close> and \<open>+54\<close> for \<^verbatim>\<open>Down\<close> (the two keys of an axis cancel), unclamped,
  provided that no stroke visited in the frame both drags this sprite and is released:
  such a release runs \<^verbatim>\<open>MoveBy\<close> after the nudge.
\<close>

theorem nudge_unclamped:
  "(distinct (sprites g) \<and> a \<in> set (sprites g) \<and> s_chosen (store g a) \<longrightarrow>
      store (nudgeUp g) a = (store g a)\<lparr>s_y := s_y (store g a) - 54\<rparr> \<and>
      store (nudgeDown g) a = (store g a)\<lparr>s_y := s_y (store g a) + 54\<rparr> \<and>
      store (nudgeRight g) a = (store g a)\<lparr>s_x := s_x (store g a) + 80\<rparr> \<and>
      store (nudgeLeft g) a = (store g a)\<lparr>s_x := s_x (store g a) - 80\<rparr> \<and>
      (word_sle 0 (s_x (store g a)) \<and> word_sless (s_x (store g a)) 80 \<longrightarrow>
         word_sless (s_x (store (nudgeLeft g) a)) 0) \<and>
      (word_sle 0 (s_y (store g a)) \<and> word_sless (s_y (store g a)) 54 \<longrightarrow>
         word_sless (s_y (store (nudgeUp g) a)) 0) \<and>
      (word_sless 720 (s_x (store g a)) \<and> word_sle (s_x (store g a)) screenWidth \<longrightarrow>
         word_sless screenWidth (s_x (store (nudgeRight g) a))) \<and>
      (word_sless 486 (s_y (store g a)) \<and> word_sle (s_y (store g a)) screenHeight \<longrightarrow>
         word_sless screenHeight (s_y (store (nudgeDown g) a)))) \<and>
   (chosen_inv g \<and> Game_update ops as inp ord g = Inr g' \<and> ChosenSprite g' = Some a \<and>
    (\<forall>s\<in>set ord. draggingObject s = SpritePtr (Some a) \<longrightarrow>
                    \<not> released (Stroke_Update inp s)) \<longrightarrow>
      s_x (store g' a)
        = s_x (store g a) + (if keyRight inp then 80 else 0) - (if keyLeft inp then 80 else 0) \<and>
      s_y (store g' a)
        = s_y (store g a) - (if keyUp inp then 54 else 0) + (if keyDown inp then 54 else 0) \<and>
      (keyLeft inp \<and> \<not> keyRight inp \<and>
         word_sle 0 (s_x (store g a)) \<and> word_sless (s_x (store g a)) 80 \<longrightarrow>
         word_sless (s_x (store g' a)) 0) \<and>
      (keyUp inp \<and> \<not> keyDown inp \<and>
         word_sle 0 (s_y (store g a)) \<and> word_sless (s_y (store g a)) 54 \<longrightarrow>
         word_sless (s_y (store g' a)) 0) \<and>
      (keyRight inp \<and> \<not> keyLeft inp \<and>
         word_sless 720 (s_x (store g a)) \<and> word_sle (s_x (store g a)) screenWidth \<longrightarrow>
         word_sless screenWidth (s_x (store g' a))) \<and>
      (keyDown inp \<and> \<not> keyUp inp \<and>
         word_sless 486 (s_y (store g a)) \<and> word_sle (s_y (store g a)) screenHeight \<longrightarrow>
         word_sless screenHeight (s_y (store g' a))))"
proof (intro conjI impI)
  assume "distinct (sprites g) \<and> a \<in> set (sprites g) \<and> s_chosen (store g a)"
  then have h: "distinct (sprites g)" "a \<in> set (sprites g)" "s_chosen (store g a)"
    by simp_all
  note l = nudge_loops [OF h]
  from l show "store (nudgeUp g) a = (store g a)\<lparr>s_y := s_y (store g a) - 54\<rparr>" by blast
  from l show "store (nudgeDown g) a = (store g a)\<lparr>s_y := s_y (store g a) + 54\<rparr>" by blast
  from l show "store (nudgeRight g) a = (store g a)\<lparr>s_x := s_x (store g a) + 80\<rparr>" by blast
  from l show "store (nudgeLeft g) a = (store g a)\<lparr>s_x := s_x (store g a) - 80\<rparr>" by blast
  {
    assume "word_sle 0 (s_x (store g a)) \<and> word_sless (s_x (store g a)) 80"
    with l show "word_sless (s_x (store (nudgeLeft g) a)) 0" by blast
  }
  {
    assume "word_sle 0 (s_y (store g a)) \<and> word_sless (s_y (store g a)) 54"
    with l show "word_sless (s_y (store (nudgeUp g) a)) 0" by blast
  }
  {
    assume "word_sless 720 (s_x (store g a)) \<and> word_sle (s_x (store g a)) screenWidth"
    with l show "word_sless screenWidth (s_x (store (nudgeRight g) a))" by blast
  }
  {
    assume "word_sless 486 (s_y (store g a)) \<and> word_sle (s_y (store g a)) screenHeight"
    with l show "word_sless screenHeight (s_y (store (nudgeDown g) a))" by blast
  }
next
  assume f: "chosen_inv g \<and> Game_update ops as inp ord g = Inr g' \<and> ChosenSprite g' = Some a \<and>
    (\<forall>s\<in>set ord. draggingObject s = SpritePtr (Some a) \<longrightarrow>
                    \<not> released (Stroke_Update inp s))"
  then have i: "chosen_inv g" and u: "Game_update ops as inp ord g = Inr g'"
    and c: "ChosenSprite g' = Some a"
    and n: "\<forall>s\<in>set ord. draggingObject s = SpritePtr (Some a) \<longrightarrow>
                \<not> released (Stroke_Update inp s)"
    by simp_all
  note x = Game_update_nudges(1) [OF i u c n] and y = Game_update_nudges(2) [OF i u c n]
  note e = Game_update_nudges_edge [OF x y]
  show "s_x (store g' a)
        = s_x (store g a) + (if keyRight inp then 80 else 0) - (if keyLeft inp then 80 else 0)"
    by (rule x)
  show "s_y (store g' a)
        = s_y (store g a) - (if keyUp inp then 54 else 0) + (if keyDown inp then 54 else 0)"
    by (rule y)
  {
    assume "keyLeft inp \<and> \<not> keyRight inp \<and>
         word_sle 0 (s_x (store g a)) \<and> word_sless (s_x (store g a)) 80"
    with e(1) show "word_sless (s_x (store g' a)) 0" by blast
  }
  {
    assume "keyUp inp \<and> \<not> keyDown inp \<and>
         word_sle 0 (s_y (store g a)) \<and> word_sless (s_y (store g a)) 54"
    with e(2) show "word_sless (s_y (store g' a)) 0" by blast
  }
  {
    assume "keyRight inp \<and> \<not> keyLeft inp \<and>
         word_sless 720 (s_x (store g a)) \<and> word_sle (s_x (store g a)) screenWidth"
    with e(3) show "word_sless screenWidth (s_x (store g' a))" by blast
  }
  {
    assume "keyDown inp \<and> \<not> keyUp inp \<and>
         word_sless 486 (s_y (store g a)) \<and> word_sle (s_y (store g a)) screenHeight"
    with e(4) show "word_sless screenHeight (s_y (store g' a))" by blast
  }
qed

theorem nudge_unclamped_witness:
  "distinct (sprites chosenGame) \<and> 0 \<in> set (sprites chosenGame) \<and>
   s_chosen (store chosenGame 0) \<and>
   s_x (store chosenGame 0) = 10 \<and> s_y (store chosenGame 0) = 10 \<and>
   s_x (store (nudgeLeft chosenGame) 0) = - 70 \<and>
   word_sless (s_x (store (nudgeLeft chosenGame) 0)) 0 \<and>
   s_y (store (nudgeUp chosenGame) 0) = - 44 \<and>
   word_sless (s_y (store (nudgeUp chosenGame) 0)) 0 \<and>
   distinct (sprites edgeGame) \<and> 0 \<in> set (sprites edgeGame) \<and>
   s_chosen (store edgeGame 0) \<and>
   s_x (store edgeGame 0) = 750 \<and> s_y (store edgeGame 0) = 500 \<and>
   s_x (store (nudgeRight edgeGame) 0) = 830 \<and>
   word_sless screenWidth (s_x (store (nudgeRight edgeGame) 0)) \<and>
   s_y (store (nudgeDown edgeGame) 0) = 554 \<and>
   word_sless screenHeight (s_y (store (nudgeDown edgeGame) 0)) \<and>
   chosen_inv heldGame \<and> reachable realOps demoAssets heldGame \<and>
   s_x (store heldGame 0) = 10 \<and> s_y (store heldGame 0) = 10 \<and>
   keyLeft leftInput \<and> \<not> keyRight leftInput \<and>
   draggingObject pressedStroke = SpritePtr (Some 0) \<and>
   \<not> released (Stroke_Update leftInput pressedStroke) \<and>
   (\<exists>g1. Game_update realOps demoAssets leftInput [pressedStroke] heldGame = Inr g1 \<and>
         ChosenSprite g1 = Some 0 \<and>
         s_x (store g1 0) = - 70 \<and> s_y (store g1 0) = 10 \<and>
         word_sless (s_x (store g1 0)) 0)"
proof -
  have h: "distinct (sprites chosenGame)" "0 \<in> set (sprites chosenGame)"
    "s_chosen (store chosenGame 0)"
    by (simp_all add: demo_defs)
  have v: "s_x (store chosenGame 0) = 10" "s_y (store chosenGame 0) = 10"
    by (simp_all add: demo_defs)
  have e: "distinct (sprites edgeGame)" "0 \<in> set (sprites edgeGame)"
    "s_chosen (store edgeGame 0)"
    by (simp_all add: demo_defs)
  have w: "s_x (store edgeGame 0) = 750" "s_y (store edgeGame 0) = 500"
    by (simp_all add: demo_defs)
  from conjunct1 [OF nudge_unclamped [of chosenGame 0]] h have a:
    "s_x (store (nudgeLeft chosenGame) 0) = - 70 \<and>
     word_sless (s_x (store (nudgeLeft chosenGame) 0)) 0 \<and>
     s_y (store (nudgeUp chosenGame) 0) = - 44 \<and>
     word_sless (s_y (store (nudgeUp chosenGame) 0)) 0"
    by (simp add: v word_sle_eq word_sless_alt)
  from conjunct1 [OF nudge_unclamped [of edgeGame 0]] e have b:
    "s_x (store (nudgeRight edgeGame) 0) = 830 \<and>
     word_sless screenWidth (s_x (store (nudgeRight edgeGame) 0)) \<and>
     s_y (store (nudgeDown edgeGame) 0) = 554 \<and>
     word_sless screenHeight (s_y (store (nudgeDown edgeGame) 0))"
    by (simp add: w screen_defs)
  have r0: "reachable realOps demoAssets demoGame"
    by (rule reach_init [OF init_demo])
  have v0: "visit_order realOps demoAssets pressInput [pressedStroke] demoGame"
    by (simp add: visit_order_def update_defs demo_defs)
  have r: "reachable realOps demoAssets heldGame"
    by (rule reach_frame [OF r0 v0 held_reached])
  have p: "s_x (store heldGame 0) = 10" "s_y (store heldGame 0) = 10"
    "keyLeft leftInput" "\<not> keyRight leftInput" "\<not> keyUp leftInput" "\<not> keyDown leftInput"
    "draggingObject pressedStroke = SpritePtr (Some 0)"
    "\<not> released (Stroke_Update leftInput pressedStroke)"
    by (simp_all add: Stroke_Update_def demo_defs)
  have "\<exists>g1. Game_update realOps demoAssets leftInput [pressedStroke] heldGame = Inr g1 \<and>
          ChosenSprite g1 = Some 0"
    by (simp add: update_defs nudgeLeft_def forChosen_def demo_defs)
  then obtain g1 where
    u: "Game_update realOps demoAssets leftInput [pressedStroke] heldGame = Inr g1" and
    c: "ChosenSprite g1 = Some 0"
    by blast
  have n: "\<forall>s\<in>set [pressedStroke]. draggingObject s = SpritePtr (Some 0) \<longrightarrow>
             \<not> released (Stroke_Update leftInput s)"
    using p by simp
  from conjunct2 [OF nudge_unclamped
         [of heldGame 0 realOps demoAssets leftInput "[pressedStroke]" g1]]
       held_inv u c n
  have "s_x (store g1 0)
          = s_x (store heldGame 0) + (if keyRight leftInput then 80 else 0)
              - (if keyLeft leftInput then 80 else 0) \<and>
        s_y (store g1 0)
          = s_y (store heldGame 0) - (if keyUp leftInput then 54 else 0)
              + (if keyDown leftInput then 54 else 0)"
    by blast
  then have q: "s_x (store g1 0) = - 70" "s_y (store g1 0) = 10"
    by (simp_all add: p)
  then have "word_sless (s_x (store g1 0)) 0"
    by (simp add: word_sless_alt)
  with u c q have f:
    "\<exists>g1. Game_update realOps demoAssets leftInput [pressedStroke] heldGame = Inr g1 \<and>
         ChosenSprite g1 = Some 0 \<and>
         s_x (store g1 0) = - 70 \<and> s_y (store g1 0) = 10 \<and>
         word_sless (s_x (store g1 0)) 0"
    by blast
  from a b h v e w held_inv r p(1,2,3,4,7,8) f show ?thesis
    by blast
qed

text \<open>
  The claim as it was written speaks of every frame in which an arrow key is pressed.
  In the game reached from \<^verbatim>\<open>init\<close> by one press frame, the chosen sprite stands at
  \<open>(10, 10)\<close> and is held by a mouse stroke that has not moved. A frame with
  \<^verbatim>\<open>Left\<close> and the release of the mouse nudges it to \<open>x = -70\<close>, and the release
  then runs \<^verbatim>\<open>MoveBy(0, 0)\<close>, which clamps: the frame ends at \<open>x = 0\<close>, a change
  of \<open>-10\<close>. A frame with \<^verbatim>\<open>Left\<close> and \<^verbatim>\<open>Right\<close> leaves it at \<open>x = 10\<close>.
\<close>

theorem nudge_unclamped_counterexample:
  "init_game realOps demoAssets (10, 10) (30, 30) = Inr demoGame \<and>
   visit_order realOps demoAssets pressInput [pressedStroke] demoGame \<and>
   Game_update realOps demoAssets pressInput [pressedStroke] demoGame = Inr heldGame \<and>
   ChosenSprite heldGame = Some 0 \<and> s_chosen (store heldGame 0) \<and>
   position_after (Inr heldGame) 0 = Some (10, 10) \<and>
   keyLeft leftReleaseInput \<and>
   visit_order realOps demoAssets leftReleaseInput [pressedStroke] heldGame \<and>
   position_after
     (Game_update realOps demoAssets leftReleaseInput [pressedStroke] heldGame) 0
     = Some (0, 10) \<and>
   keyLeft leftRightInput \<and> keyRight leftRightInput \<and>
   visit_order realOps demoAssets leftRightInput [pressedStroke] heldGame \<and>
   position_after
     (Game_update realOps demoAssets leftRightInput [pressedStroke] heldGame) 0
     = Some (10, 10)"
proof -
  have v0: "visit_order realOps demoAssets pressInput [pressedStroke] demoGame"
    by (simp add: visit_order_def update_defs demo_defs)
  have c: "ChosenSprite heldGame = Some 0" "s_chosen (store heldGame 0)"
    "position_after (Inr heldGame) 0 = Some (10, 10)"
    by (simp_all add: position_after_def demo_defs)
  have k: "keyLeft leftReleaseInput" "keyLeft leftRightInput" "keyRight leftRightInput"
    by (simp_all add: demo_defs)
  have v1: "visit_order realOps demoAssets leftReleaseInput [pressedStroke] heldGame"
    by (simp add: visit_order_def handleInput_def Let_def nudgeLeft_def forChosen_def demo_defs)
  have v2: "visit_order realOps demoAssets leftRightInput [pressedStroke] heldGame"
    by (simp add: visit_order_def handleInput_def Let_def nudgeLeft_def nudgeRight_def
        forChosen_def demo_defs)
  have a: "position_after
     (Game_update realOps demoAssets leftReleaseInput [pressedStroke] heldGame) 0
     = Some (0, 10)"
    by (simp add: position_after_def update_defs nudgeLeft_def forChosen_def demo_defs
        screen_defs Sprite_MoveBy_def)
  have b: "position_after
     (Game_update realOps demoAssets leftRightInput [pressedStroke] heldGame) 0
     = Some (10, 10)"
    by (simp add: position_after_def update_defs nudgeLeft_def nudgeRight_def forChosen_def
        demo_defs)
  from init_demo v0 held_reached c k v1 v2 a b show ?thesis by (intro conjI)
qed

subsection \<open>The physics formulas at distance zero\<close>

text \<open>
  Claim C8. \<^verbatim>\<open>distance\<close>, \<^verbatim>\<open>force\<close>, \<^verbatim>\<open>field\<close>, \<^verbatim>\<open>angle\<close> and
  \<^verbatim>\<open>midPoint\<close> read their arguments and assign nothing, which is how they are
  translated: functions of the arguments alone. No branch guards a zero distance. With
  the facts of float64 arithmetic about zero as hypotheses (\<open>0 * 0 = 0\<close>,
  \<open>0 + 0 = 0\<close>, \<open>sqrt 0 = 0\<close>, \<open>0 / 100 = 0\<close>), two sprites at the same position
  have distance zero, and \<^verbatim>\<open>force\<close> (as \<^verbatim>\<open>field\<close> at that radius) is the
  quotient by zero itself.
\<close>

theorem zero_distance_unguarded:
  assumes "s_x p1 = s_x p2" and "s_y p1 = s_y p2"
    and "f_mul ops (f_of_int ops 0) (f_of_int ops 0) = f_of_int ops 0"
    and "f_add ops (f_of_int ops 0) (f_of_int ops 0) = f_of_int ops 0"
    and "f_sqrt ops (f_of_int ops 0) = f_of_int ops 0"
    and "f_div ops (f_of_int ops 0) (f_const ops 100) = f_of_int ops 0"
  shows "distance ops p1 p2 = f_of_int ops 0 \<and>
         force ops p1 p2 =
           f_div ops (f_mul ops (k ops) (f_mul ops (s_charge p1) (s_charge p2)))
                     (f_of_int ops 0) \<and>
         field ops c (distance ops p1 p2) =
           f_div ops (f_mul ops (k ops) c) (f_of_int ops 0)"
proof -
  have d: "distance ops p1 p2 = f_of_int ops 0"
    using assms by (simp add: distance_def)
  show ?thesis
    unfolding force_def field_def Let_def d using assms(3) by simp
qed

theorem zero_distance_unguarded_witness:
  "s_x (demoSprite ''Q0'' 10 10 False) = s_x (demoSprite ''Q1'' 10 10 False) \<and>
   s_y (demoSprite ''Q0'' 10 10 False) = s_y (demoSprite ''Q1'' 10 10 False) \<and>
   f_mul realOps (f_of_int realOps 0) (f_of_int realOps 0) = f_of_int realOps 0 \<and>
   f_add realOps (f_of_int realOps 0) (f_of_int realOps 0) = f_of_int realOps 0 \<and>
   f_sqrt realOps (f_of_int realOps 0) = f_of_int realOps 0 \<and>
   f_div realOps (f_of_int realOps 0) (f_const realOps 100) = f_of_int realOps 0 \<and>
   distance realOps (demoSprite ''Q0'' 10 10 False) (demoSprite ''Q1'' 10 10 False)
     = f_of_int realOps 0 \<and>
   force realOps (demoSprite ''Q0'' 10 10 False) (demoSprite ''Q1'' 10 10 False)
     = f_div realOps
         (f_mul realOps (k realOps)
            (f_mul realOps (s_charge (demoSprite ''Q0'' 10 10 False))
                           (s_charge (demoSprite ''Q1'' 10 10 False))))
         (f_of_int realOps 0)"
proof -
  have h: "s_x (demoSprite ''Q0'' 10 10 False) = s_x (demoSprite ''Q1'' 10 10 False)"
    "s_y (demoSprite ''Q0'' 10 10 False) = s_y (demoSprite ''Q1'' 10 10 False)"
    "f_mul realOps (f_of_int realOps 0) (f_of_int realOps 0) = f_of_int realOps 0"
    "f_add realOps (f_of_int realOps 0) (f_of_int realOps 0) = f_of_int realOps 0"
    "f_sqrt realOps (f_of_int realOps 0) = f_of_int realOps 0"
    "f_div realOps (f_of_int realOps 0) (f_const realOps 100) = f_of_int realOps 0"
    by (simp_all add: demo_defs)
  from zero_distance_unguarded [OF h, of 0] h show ?thesis by blast
qed


end
